theory Spec2Isabelle
  imports Main "HOL-Library.Sublist" "HOL-Library.AList"
begin

section \<open>Python values\<close>

text \<open>
  A Python \<open>str\<close> is a sequence of Unicode code points, so it is modelled as a list of
  natural numbers; \<open>u\<close> turns an ASCII literal into such a list. The predicates below are
  the character classes the parser uses: \<open>is_space\<close> is the set matched by \<open>\s\<close> in a
  \<open>str\<close> pattern, which is also the set removed by \<open>str.strip()\<close>. Decimal digits are the
  ASCII ones.
\<close>

type_synonym ustr = "nat list"

definition u :: "string \<Rightarrow> ustr" where
  "u s = map of_char s"

definition is_space :: "nat \<Rightarrow> bool" where
  "is_space c \<longleftrightarrow>
     (9 \<le> c \<and> c \<le> 13) \<or> (28 \<le> c \<and> c \<le> 32) \<or> c = 133 \<or> c = 160 \<or> c = 5760 \<or>
     (8192 \<le> c \<and> c \<le> 8202) \<or> c = 8232 \<or> c = 8233 \<or> c = 8239 \<or> c = 8287 \<or> c = 12288"

definition is_digit :: "nat \<Rightarrow> bool" where
  "is_digit c \<longleftrightarrow> 48 \<le> c \<and> c \<le> 57"

definition is_alpha :: "nat \<Rightarrow> bool" where
  "is_alpha c \<longleftrightarrow> (65 \<le> c \<and> c \<le> 90) \<or> (97 \<le> c \<and> c \<le> 122)"

definition is_hex :: "nat \<Rightarrow> bool" where
  "is_hex c \<longleftrightarrow> is_digit c \<or> (65 \<le> c \<and> c \<le> 70) \<or> (97 \<le> c \<and> c \<le> 102)"

text \<open>\<open>str.strip()\<close>: whitespace removed at both ends.\<close>

definition py_strip :: "ustr \<Rightarrow> ustr" where
  "py_strip s = rev (dropWhile is_space (rev (dropWhile is_space s)))"

text \<open>
  \<open>str.lower()\<close>, one code point at a time. The ASCII capitals and the two code points
  outside ASCII whose lower case contains an ASCII letter (U+0130, U+212A) are as in
  CPython; every other code point is kept (its lower case is again outside ASCII).
\<close>

definition lower_cp :: "nat \<Rightarrow> ustr" where
  "lower_cp c =
     (if 65 \<le> c \<and> c \<le> 90 then [c + 32]
      else if c = 304 then [105, 775]
      else if c = 8490 then [107]
      else [c])"

definition py_lower :: "ustr \<Rightarrow> ustr" where
  "py_lower s = concat (map lower_cp s)"

text \<open>\<open>a in b\<close> on strings.\<close>

definition py_in :: "ustr \<Rightarrow> ustr \<Rightarrow> bool" where
  "py_in a b \<longleftrightarrow> sublist a b"

datatype error = AttributeError | TypeError | ValueError

section \<open>Regular-expression substitution\<close>

text \<open>
  \<open>re.sub\<close> scans the string from the left; at each position it tries the pattern, and
  on a match it emits the replacement and resumes after the match, otherwise it copies one
  character. The matcher argument gives, for the text at the current position, the
  replacement and the text after the match. None of the patterns of the parser matches the
  empty string, so the scan always resumes on a strictly shorter text.
\<close>

fun re_sub :: "(ustr \<Rightarrow> (ustr \<times> ustr) option) \<Rightarrow> ustr \<Rightarrow> ustr" where
  "re_sub m [] = []"
| "re_sub m (c # s) =
     (case m (c # s) of
        None \<Rightarrow> c # re_sub m s
      | Some (rep, rest) \<Rightarrow>
          if length rest \<le> length s then rep @ re_sub m rest else c # re_sub m s)"

subsection \<open>Numeric character references\<close>

text \<open>
  \<open>int(id)\<close> and \<open>chr(n)\<close> with their failures; the callback of
  \<open>_decode_unicode_references\<close> catches every exception and returns the digits. The
  limit that newer interpreters put on the length of the digit string of \<open>int\<close> is left
  out.
\<close>

definition py_int :: "ustr \<Rightarrow> error + int" where
  "py_int ds =
     (if ds \<noteq> [] \<and> list_all is_digit ds
      then Inr (foldl (\<lambda>n d. 10 * n + (int d - 48)) 0 ds)
      else Inl ValueError)"

definition py_chr :: "int \<Rightarrow> error + ustr" where
  "py_chr n = (if 0 \<le> n \<and> n < 1114112 then Inr [nat n] else Inl ValueError)"

definition callback :: "ustr \<Rightarrow> ustr" where
  "callback ident =
     (case py_int ident of
        Inl _ \<Rightarrow> ident
      | Inr n \<Rightarrow> (case py_chr n of Inl _ \<Rightarrow> ident | Inr c \<Rightarrow> c))"

text \<open>
  The pattern \<open>&#(\d+)(;|(?=\s))\<close> at the start of the text: the digits are the maximal
  run, a following semicolon is consumed, a following whitespace is looked at only.
\<close>

definition match_charref :: "ustr \<Rightarrow> (ustr \<times> ustr) option" where
  "match_charref s =
     (case s of
        a # h # r \<Rightarrow>
          if a = 38 \<and> h = 35 \<and> takeWhile is_digit r \<noteq> [] then
            (case dropWhile is_digit r of
               [] \<Rightarrow> None
             | c # t \<Rightarrow>
                 if c = 59 then Some (callback (takeWhile is_digit r), t)
                 else if is_space c then Some (callback (takeWhile is_digit r), c # t)
                 else None)
          else None
      | _ \<Rightarrow> None)"

definition decode_unicode_references :: "ustr \<Rightarrow> ustr" where
  "decode_unicode_references text = re_sub match_charref text"

subsection \<open>Brackets, delimiters, whitespace\<close>

text \<open>
  \<open>_empty_brackets_re\<close> is \<open>(\s*?\[[ \-D,;]*?\])|(\s+?\([ \-D,;]*?\))\<close> where \<open>D\<close> stands for
  the en dash U+2013: optional whitespace and a pair of square brackets holding only
  separators, or at least one whitespace and such a pair of parentheses.
\<close>

definition is_sep :: "nat \<Rightarrow> bool" where
  "is_sep c \<longleftrightarrow> c = 32 \<or> c = 45 \<or> c = 8211 \<or> c = 44 \<or> c = 59"

definition match_empty_brackets :: "ustr \<Rightarrow> (ustr \<times> ustr) option" where
  "match_empty_brackets s =
     (case dropWhile is_space s of
        [] \<Rightarrow> None
      | b # r \<Rightarrow>
          if b = 91 then
            (case dropWhile is_sep r of
               [] \<Rightarrow> None
             | c # rest \<Rightarrow> if c = 93 then Some ([], rest) else None)
          else if b = 40 \<and> takeWhile is_space s \<noteq> [] then
            (case dropWhile is_sep r of
               [] \<Rightarrow> None
             | c # rest \<Rightarrow> if c = 41 then Some ([], rest) else None)
          else None)"

text \<open>
  \<open>_spaces_with_delimeter_re\<close> is \<open>(\s+[-,;]\s+?)+\<close>. One round of the group takes the
  whole whitespace run, one delimiter and one whitespace; the rounds repeat as long as
  they match, each on a strictly shorter text.
\<close>

definition is_delim :: "nat \<Rightarrow> bool" where
  "is_delim c \<longleftrightarrow> c = 45 \<or> c = 44 \<or> c = 59"

definition delim_group :: "ustr \<Rightarrow> ustr option" where
  "delim_group s =
     (if takeWhile is_space s = [] then None
      else (case dropWhile is_space s of
              d # w # rest \<Rightarrow> if is_delim d \<and> is_space w then Some rest else None
            | _ \<Rightarrow> None))"

fun delim_groups :: "ustr \<Rightarrow> ustr" where
  "delim_groups [] = []"
| "delim_groups (c # s) =
     (case delim_group (c # s) of
        None \<Rightarrow> c # s
      | Some rest \<Rightarrow> if length rest \<le> length s then delim_groups rest else c # s)"

definition match_spaces_with_delimeter :: "ustr \<Rightarrow> (ustr \<times> ustr) option" where
  "match_spaces_with_delimeter s =
     (case delim_group s of
        None \<Rightarrow> None
      | Some rest \<Rightarrow> Some ([32], delim_groups rest))"

text \<open>\<open>_whitespaces_re\<close> is \<open>\s{2,}\<close>: a maximal run of at least two whitespace.\<close>

definition match_whitespaces :: "ustr \<Rightarrow> (ustr \<times> ustr) option" where
  "match_whitespaces s =
     (if 2 \<le> length (takeWhile is_space s) then Some ([32], dropWhile is_space s) else None)"

section \<open>The markup tree of BeautifulSoup\<close>

text \<open>
  \<open>BeautifulSoup(text, 'html.parser')\<close> is library code. It is modelled on the markup
  that \<open>etree.tostring\<close> writes and that \<open>_clean_text\<close> receives: start tags, end tags and
  empty-element tags without a \<open>>\<close> inside an attribute value, character data, the
  references \<open>&lt;\<close>, \<open>&gt;\<close>, \<open>&amp;\<close>, \<open>&quot;\<close> and numeric references. As in
  \<open>html.parser\<close>, tag names are lowered, a \<open><\<close> that opens no tag and a \<open>&\<close> that opens no
  reference are character data, an end tag closes the nearest open element of its name
  and is ignored when there is none, and the void elements of HTML never hold children.
  Comments, declarations, processing instructions and other named references are outside
  the model.
\<close>

datatype node = NavigableString ustr | Tag ustr "node list"

datatype token = Data ustr | StartTag ustr | StartEndTag ustr | EndTag ustr

definition ascii_lower :: "ustr \<Rightarrow> ustr" where
  "ascii_lower s = map (\<lambda>c. if 65 \<le> c \<and> c \<le> 90 then c + 32 else c) s"

definition tagname_char :: "nat \<Rightarrow> bool" where
  "tagname_char c \<longleftrightarrow> \<not> (c = 9 \<or> c = 10 \<or> c = 13 \<or> c = 12 \<or> c = 32 \<or> c = 47 \<or> c = 62 \<or> c = 0)"

definition endname_char :: "nat \<Rightarrow> bool" where
  "endname_char c \<longleftrightarrow> is_alpha c \<or> is_digit c \<or> c = 45 \<or> c = 46 \<or> c = 58 \<or> c = 95"

text \<open>The text after a \<open><\<close>: a start tag, an empty-element tag or an end tag, if any.\<close>

definition lex_tag :: "ustr \<Rightarrow> (token \<times> ustr) option" where
  "lex_tag r =
     (case r of
        [] \<Rightarrow> None
      | c # r' \<Rightarrow>
          if is_alpha c \<and> 62 \<in> set r then
            (let body = takeWhile (\<lambda>x. x \<noteq> 62) r;
                 rest = tl (dropWhile (\<lambda>x. x \<noteq> 62) r);
                 name = ascii_lower (takeWhile tagname_char body)
             in Some (if last body = 47 then StartEndTag name else StartTag name, rest))
          else if c = 47 \<and> 62 \<in> set r' then
            (let body = takeWhile (\<lambda>x. x \<noteq> 62) r';
                 rest = tl (dropWhile (\<lambda>x. x \<noteq> 62) r');
                 name = takeWhile endname_char body
             in if name \<noteq> [] \<and> is_alpha (hd name) \<and> list_all is_space (dropWhile endname_char body)
                then Some (EndTag (ascii_lower name), rest) else None)
          else None)"

text \<open>
  \<open>handle_charref\<close> of BeautifulSoup: a code below 256 is read as a windows-1252 byte
  where that byte is defined, any other code as the code point itself, and a code that is
  no code point as U+FFFD.
\<close>

definition windows_1252 :: "nat \<Rightarrow> nat option" where
  "windows_1252 b = map_of
     [(128, 8364), (130, 8218), (131, 402), (132, 8222), (133, 8230), (134, 8224),
      (135, 8225), (136, 710), (137, 8240), (138, 352), (139, 8249), (140, 338),
      (142, 381), (145, 8216), (146, 8217), (147, 8220), (148, 8221), (149, 8226),
      (150, 8211), (151, 8212), (152, 732), (153, 8482), (154, 353), (155, 8250),
      (156, 339), (158, 382), (159, 376)] b"

definition handle_charref :: "nat \<Rightarrow> ustr" where
  "handle_charref n =
     (case windows_1252 n of
        Some c \<Rightarrow> [c]
      | None \<Rightarrow> if n < 1114112 then [n] else [65533])"

definition hex_val :: "nat \<Rightarrow> nat" where
  "hex_val c = (if is_digit c then c - 48 else if 97 \<le> c then c - 87 else c - 55)"

definition entity_table :: "(ustr \<times> ustr) list" where
  "entity_table = [(u ''lt;'', [60]), (u ''gt;'', [62]), (u ''amp;'', [38]), (u ''quot;'', [34])]"

text \<open>The text after a \<open>&\<close>: a numeric or named reference, if any, as decoded data.\<close>

definition lex_ref :: "ustr \<Rightarrow> (token \<times> ustr) option" where
  "lex_ref r =
     (case r of
        [] \<Rightarrow> None
      | h # r' \<Rightarrow>
          if h = 35 then
            (case r' of
               [] \<Rightarrow> None
             | x # r'' \<Rightarrow>
                 if x = 120 \<or> x = 88 then
                   (case dropWhile is_hex r'' of
                      [] \<Rightarrow> None
                    | t # rest \<Rightarrow>
                        if takeWhile is_hex r'' = [] then None
                        else Some (Data (handle_charref
                                 (foldl (\<lambda>n d. 16 * n + hex_val d) 0 (takeWhile is_hex r''))),
                               if t = 59 then rest else t # rest))
                 else
                   (case dropWhile is_digit r' of
                      [] \<Rightarrow> None
                    | t # rest \<Rightarrow>
                        if takeWhile is_digit r' = [] \<or> is_hex t then None
                        else Some (Data (handle_charref
                                 (foldl (\<lambda>n d. 10 * n + (d - 48)) 0 (takeWhile is_digit r'))),
                               if t = 59 then rest else t # rest)))
          else
            (case filter (\<lambda>(name, c). prefix name r) entity_table of
               [] \<Rightarrow> None
             | (name, c) # _ \<Rightarrow> Some (Data c, drop (length name) r)))"

text \<open>Adjacent character data is one string of the tree.\<close>

fun add_token :: "token \<Rightarrow> token list \<Rightarrow> token list" where
  "add_token (Data d) (Data d' # ts) = Data (d @ d') # ts"
| "add_token tok ts = tok # ts"

fun tokenize :: "ustr \<Rightarrow> token list" where
  "tokenize [] = []"
| "tokenize (c # s) =
     (case (if c = 60 then lex_tag s else if c = 38 then lex_ref s else None) of
        None \<Rightarrow> add_token (Data [c]) (tokenize s)
      | Some (tok, rest) \<Rightarrow>
          if length rest \<le> length s then add_token tok (tokenize rest)
          else add_token (Data [c]) (tokenize s))"

text \<open>
  The tree builder keeps the stack of open elements, innermost first, each with the
  children collected so far; the last frame is the document itself.
\<close>

definition void_elements :: "ustr list" where
  "void_elements = map u
     [''area'', ''base'', ''br'', ''col'', ''embed'', ''hr'', ''img'', ''input'', ''keygen'',
      ''link'', ''menuitem'', ''meta'', ''param'', ''source'', ''track'', ''wbr'',
      ''basefont'', ''bgsound'', ''command'', ''frame'', ''image'', ''isindex'', ''nextid'',
      ''spacer'']"

type_synonym frame = "ustr \<times> node list"

fun append_child :: "node \<Rightarrow> frame list \<Rightarrow> frame list" where
  "append_child n [] = []"
| "append_child n ((name, cs) # st) = (name, cs @ [n]) # st"

fun pop_tag :: "frame list \<Rightarrow> frame list" where
  "pop_tag ((name, cs) # parent # st) = append_child (Tag name cs) (parent # st)"
| "pop_tag st = st"

fun pop_to_tag :: "ustr \<Rightarrow> frame list \<Rightarrow> frame list" where
  "pop_to_tag name ((n, cs) # parent # st) =
     (if n = name then pop_tag ((n, cs) # parent # st)
      else pop_to_tag name (pop_tag ((n, cs) # parent # st)))"
| "pop_to_tag name st = st"

fun feed :: "token list \<Rightarrow> frame list \<Rightarrow> frame list" where
  "feed [] st = st"
| "feed (Data d # ts) st = feed ts (append_child (NavigableString d) st)"
| "feed (StartTag n # ts) st =
     feed ts (if n \<in> set void_elements then append_child (Tag n []) st else (n, []) # st)"
| "feed (StartEndTag n # ts) st = feed ts (append_child (Tag n []) st)"
| "feed (EndTag n # ts) st =
     feed ts (if n \<in> set (map fst (butlast st)) then pop_to_tag n st else st)"

fun close_all :: "frame list \<Rightarrow> node list" where
  "close_all [] = []"
| "close_all [(name, cs)] = cs"
| "close_all (f # parent # st) = close_all (pop_tag (f # parent # st))"

definition BeautifulSoup :: "ustr \<Rightarrow> node list" where
  "BeautifulSoup text = close_all (feed (tokenize text) [([], [])])"

section \<open>The text normalizer\<close>

text \<open>
  \<open>find_all(["xref", "a"])\<close> lists every such element of the tree and the loop detaches
  each one, so none is left. \<open>find_all(["sub", "sup"])\<close> lists the remaining \<open>sub\<close> and
  \<open>sup\<close> elements in document order; the outermost one is replaced by a hyphen and its
  whole text, and replacing an element nested in it afterwards changes the detached
  subtree only.
\<close>

fun get_text :: "node \<Rightarrow> ustr" where
  "get_text (NavigableString s) = s"
| "get_text (Tag name cs) = concat (map get_text cs)"

fun extract_links :: "node \<Rightarrow> node list" where
  "extract_links (NavigableString s) = [NavigableString s]"
| "extract_links (Tag name cs) =
     (if name = u ''xref'' \<or> name = u ''a'' then []
      else [Tag name (concat (map extract_links cs))])"

fun replace_sub_sup :: "node \<Rightarrow> node" where
  "replace_sub_sup (NavigableString s) = NavigableString s"
| "replace_sub_sup (Tag name cs) =
     (if name = u ''sub'' \<or> name = u ''sup''
      then NavigableString (45 # concat (map get_text cs))
      else Tag name (map replace_sub_sup cs))"

definition clean_text :: "ustr \<Rightarrow> ustr" where
  "clean_text text =
     (let soup_text = BeautifulSoup text;
          soup_text = concat (map extract_links soup_text);
          soup_text = map replace_sub_sup soup_text;
          text = concat (map get_text soup_text);
          text = decode_unicode_references text;
          text = re_sub match_empty_brackets text;
          text = re_sub match_spaces_with_delimeter text;
          text = re_sub match_whitespaces text
      in py_strip text)"

section \<open>Auxiliary predicates\<close>

text \<open>No two adjacent whitespace characters.\<close>

fun no_ws_pair :: "ustr \<Rightarrow> bool" where
  "no_ws_pair (a # b # s) = (\<not> (is_space a \<and> is_space b) \<and> no_ws_pair (b # s))"
| "no_ws_pair s = True"

section \<open>The element tree of lxml\<close>

text \<open>
  \<open>etree.fromstring\<close> is library code; the model starts from the tree it returns. An
  element has a tag, its attributes, the text before its first child (\<open>None\<close> when there
  is none), its child elements and the text after its end tag. \<open>find\<close> returns the first
  match or \<open>None\<close>, and a path such as \<open>Journal/Title\<close> goes down one level per step.
  Comments and processing instructions are not elements and are left out.
\<close>

datatype xml =
  Element (tag: ustr) (attrib: "(ustr \<times> ustr) list") (el_text: "ustr option")
    (children: "xml list") (tail: "ustr option")

definition el_findall :: "ustr \<Rightarrow> xml \<Rightarrow> xml list" where
  "el_findall name el = filter (\<lambda>c. tag c = name) (children el)"

definition el_find :: "ustr \<Rightarrow> xml \<Rightarrow> xml option" where
  "el_find name el = (case el_findall name el of [] \<Rightarrow> None | c # _ \<Rightarrow> Some c)"

fun findall_path :: "ustr list \<Rightarrow> xml \<Rightarrow> xml list" where
  "findall_path [] el = [el]"
| "findall_path (name # path) el = concat (map (findall_path path) (el_findall name el))"

definition find_path :: "ustr list \<Rightarrow> xml \<Rightarrow> xml option" where
  "find_path path el = (case findall_path path el of [] \<Rightarrow> None | c # _ \<Rightarrow> Some c)"

text \<open>
  \<open>etree.tostring(el).decode('utf-8')\<close>: the element with its tail, serialized in ASCII, so
  that markup characters are escaped and every code point above 127 becomes a decimal
  character reference.
\<close>

fun dec_str :: "nat \<Rightarrow> ustr" where
  "dec_str n = (if n < 10 then [48 + n] else dec_str (n div 10) @ [48 + n mod 10])"

declare dec_str.simps [simp del]

definition escape_cdata :: "ustr \<Rightarrow> ustr" where
  "escape_cdata s = concat (map (\<lambda>c.
     if c = 38 then u ''&amp;'' else if c = 60 then u ''&lt;'' else if c = 62 then u ''&gt;''
     else if c = 13 then u ''&#13;''
     else if c < 128 then [c] else u ''&#'' @ dec_str c @ u '';'') s)"

definition escape_attrib :: "ustr \<Rightarrow> ustr" where
  "escape_attrib s = concat (map (\<lambda>c.
     if c = 38 then u ''&amp;'' else if c = 60 then u ''&lt;'' else if c = 62 then u ''&gt;''
     else if c = 34 then u ''&quot;''
     else if c = 9 then u ''&#9;'' else if c = 10 then u ''&#10;''
     else if c = 13 then u ''&#13;''
     else if c < 128 then [c] else u ''&#'' @ dec_str c @ u '';'') s)"

fun tostring :: "xml \<Rightarrow> ustr" where
  "tostring (Element t as tx cs tail_text) =
     u ''<'' @ t @ concat (map (\<lambda>(k, v). u '' '' @ k @ [61, 34] @ escape_attrib v @ [34]) as)
     @ (if tx = None \<and> cs = [] then u ''/>''
        else u ''>'' @ (case tx of None \<Rightarrow> [] | Some s \<Rightarrow> escape_cdata s)
             @ concat (map tostring cs) @ u ''</'' @ t @ u ''>'')
     @ (case tail_text of None \<Rightarrow> [] | Some s \<Rightarrow> escape_cdata s)"

section \<open>Records\<close>

text \<open>
  The values a record holds. A \<open>dict\<close> is an association list in insertion order;
  assigning to a key updates it in place or appends it. The time of day of a
  \<open>datetime\<close> built by \<open>strptime\<close> from a date is midnight and is left out.
\<close>

datatype pyval =
  VNone | VStr ustr | VDate int int int | VList "pyval list" | VDict "(string \<times> pyval) list"

type_synonym pydict = "(string \<times> pyval) list"

definition text_val :: "ustr option \<Rightarrow> pyval" where
  "text_val t = (case t of None \<Rightarrow> VNone | Some s \<Rightarrow> VStr s)"

definition dict_set :: "string \<Rightarrow> pyval \<Rightarrow> pydict \<Rightarrow> pydict" where
  "dict_set k v d = AList.update k v d"

definition dict_get :: "pydict \<Rightarrow> string \<Rightarrow> pyval option" where
  "dict_get d k = map_of d k"

text \<open>
  \<open>repr\<close> and \<open>str\<close>, as the f-strings of the parser use them. \<open>repr\<close> of a string picks
  the quote, escapes the quote, the backslash and the control characters, and writes a
  code point that is not printable in hexadecimal. Outside ASCII, the code points that are
  not printable are modelled as the control characters of Latin-1, the soft hyphen, the
  Unicode whitespace, the surrogates and the private-use areas.
\<close>

definition hex_digit :: "nat \<Rightarrow> nat" where
  "hex_digit d = (if d < 10 then 48 + d else 87 + d)"

fun hex_str :: "nat \<Rightarrow> nat \<Rightarrow> ustr" where
  "hex_str 0 n = []"
| "hex_str (Suc k) n = hex_str k (n div 16) @ [hex_digit (n mod 16)]"

definition py_isprintable :: "nat \<Rightarrow> bool" where
  "py_isprintable c \<longleftrightarrow>
     (if c < 128 then 32 \<le> c \<and> c < 127
      else \<not> (c \<le> 160 \<or> c = 173 \<or> is_space c \<or> (55296 \<le> c \<and> c \<le> 63743) \<or> 983040 \<le> c))"

definition repr_char :: "nat \<Rightarrow> nat \<Rightarrow> ustr" where
  "repr_char quote c =
     (if c = quote \<or> c = 92 then [92, c]
      else if c = 9 then [92, 116] else if c = 10 then [92, 110] else if c = 13 then [92, 114]
      else if py_isprintable c then [c]
      else if c < 256 then [92, 120] @ hex_str 2 c
      else if c < 65536 then [92, 117] @ hex_str 4 c
      else [92, 85] @ hex_str 8 c)"

definition repr_str :: "ustr \<Rightarrow> ustr" where
  "repr_str s =
     (let quote = (if 39 \<in> set s \<and> 34 \<notin> set s then 34 else 39)
      in quote # concat (map (repr_char quote) s) @ [quote])"

fun join :: "ustr \<Rightarrow> ustr list \<Rightarrow> ustr" where
  "join sep [] = []"
| "join sep [x] = x"
| "join sep (x # y # xs) = x @ sep @ join sep (y # xs)"

definition int_str :: "int \<Rightarrow> ustr" where
  "int_str i = (if i < 0 then 45 # dec_str (nat (- i)) else dec_str (nat i))"

fun py_repr :: "pyval \<Rightarrow> ustr" where
  "py_repr VNone = u ''None''"
| "py_repr (VStr s) = repr_str s"
| "py_repr (VDate y m d) =
     u ''datetime.datetime('' @ int_str y @ u '', '' @ int_str m @ u '', '' @ int_str d
     @ u '', 0, 0)''"
| "py_repr (VList xs) = u ''['' @ join (u '', '') (map py_repr xs) @ u '']''"
| "py_repr (VDict kvs) =
     u ''{'' @ join (u '', '') (map (\<lambda>(k, v). repr_str (u k) @ u '': '' @ py_repr v) kvs)
     @ u ''}''"

definition zero_pad :: "nat \<Rightarrow> ustr \<Rightarrow> ustr" where
  "zero_pad n s = replicate (n - length s) 48 @ s"

definition py_str :: "pyval \<Rightarrow> ustr" where
  "py_str v =
     (case v of
        VStr s \<Rightarrow> s
      | VDate y m d \<Rightarrow>
          zero_pad 4 (int_str y) @ u ''-'' @ zero_pad 2 (int_str m) @ u ''-''
          @ zero_pad 2 (int_str d) @ u '' 00:00:00''
      | _ \<Rightarrow> py_repr v)"

text \<open>An exception leaves the function; \<open>and_then\<close> runs the rest otherwise.\<close>

definition and_then :: "error + 'a \<Rightarrow> ('a \<Rightarrow> error + 'b) \<Rightarrow> error + 'b" where
  "and_then r f = (case r of Inl e \<Rightarrow> Inl e | Inr x \<Rightarrow> f x)"

section \<open>Field extractors\<close>

definition author_name_parse_map :: "(ustr \<times> string) list" where
  "author_name_parse_map =
     [(u ''ForeName'', ''first_name''), (u ''LastName'', ''last_name''),
      (u ''Initials'', ''initials''), (u ''Suffix'', ''suffix'')]"

text \<open>
  \<open>_get_authors\<close>: the inner loop fills one author from the children of an \<open>Author\<close>
  element and may set the collective name; the outer loop keeps the authors that are not
  empty.
\<close>

fun author_fields :: "xml list \<Rightarrow> pydict \<Rightarrow> ustr option \<Rightarrow> pydict \<times> ustr option" where
  "author_fields [] author collective_name = (author, collective_name)"
| "author_fields (name_el # els) author collective_name =
     (case map_of author_name_parse_map (tag name_el) of
        Some k \<Rightarrow> author_fields els (dict_set k (text_val (el_text name_el)) author) collective_name
      | None \<Rightarrow>
          if tag name_el = u ''CollectiveName'' then author_fields els author (el_text name_el)
          else author_fields els author collective_name)"

fun authors_loop :: "xml list \<Rightarrow> pyval list \<Rightarrow> ustr option \<Rightarrow> pyval list \<times> ustr option" where
  "authors_loop [] authors collective_name = (authors, collective_name)"
| "authors_loop (author_el # els) authors collective_name =
     (case author_fields (children author_el) [] collective_name of
        (author, collective_name') \<Rightarrow>
          authors_loop els (if author \<noteq> [] then authors @ [VDict author] else authors)
            collective_name')"

definition get_authors :: "xml \<Rightarrow> pyval list \<times> ustr option" where
  "get_authors article_el =
     (case el_find (u ''AuthorList'') article_el of
        None \<Rightarrow> ([], None)
      | Some author_list_el \<Rightarrow> authors_loop (el_findall (u ''Author'') author_list_el) [] None)"

text \<open>
  \<open>datetime.strptime(s, '%Y-%m-%d')\<close>: four digits, a month and a day in the forms that the
  format accepts, tried in the order of its pattern, nothing after the day, and a date
  that exists; anything else is a \<open>ValueError\<close>.
\<close>

definition digit_val :: "nat \<Rightarrow> int" where
  "digit_val c = int c - 48"

definition month_alts :: "ustr \<Rightarrow> (int \<times> ustr) list" where
  "month_alts s =
     (case s of a # b # r \<Rightarrow>
        (if a = 49 \<and> 48 \<le> b \<and> b \<le> 50 then [(10 + digit_val b, r)] else [])
        @ (if a = 48 \<and> 49 \<le> b \<and> b \<le> 57 then [(digit_val b, r)] else [])
      | _ \<Rightarrow> [])
     @ (case s of a # r \<Rightarrow> if 49 \<le> a \<and> a \<le> 57 then [(digit_val a, r)] else [] | _ \<Rightarrow> [])"

definition day_alts :: "ustr \<Rightarrow> (int \<times> ustr) list" where
  "day_alts s =
     (case s of a # b # r \<Rightarrow>
        (if a = 51 \<and> 48 \<le> b \<and> b \<le> 49 then [(30 + digit_val b, r)] else [])
        @ (if 49 \<le> a \<and> a \<le> 50 \<and> is_digit b then [(10 * digit_val a + digit_val b, r)] else [])
        @ (if a = 48 \<and> 49 \<le> b \<and> b \<le> 57 then [(digit_val b, r)] else [])
      | _ \<Rightarrow> [])
     @ (case s of a # r \<Rightarrow> if 49 \<le> a \<and> a \<le> 57 then [(digit_val a, r)] else [] | _ \<Rightarrow> [])
     @ (case s of a # b # r \<Rightarrow>
          if a = 32 \<and> 49 \<le> b \<and> b \<le> 57 then [(digit_val b, r)] else []
        | _ \<Rightarrow> [])"

definition days_in_month :: "int \<Rightarrow> int \<Rightarrow> int" where
  "days_in_month y m =
     (if m = 2 then (if y mod 4 = 0 \<and> (y mod 100 \<noteq> 0 \<or> y mod 400 = 0) then 29 else 28)
      else if m = 4 \<or> m = 6 \<or> m = 9 \<or> m = 11 then 30 else 31)"

definition strptime :: "ustr \<Rightarrow> error + pyval" where
  "strptime s =
     (case s of
        y1 # y2 # y3 # y4 # dash # r \<Rightarrow>
          if list_all is_digit [y1, y2, y3, y4] \<and> dash = 45 then
            (case concat (map (\<lambda>(m, r1).
                     case r1 of
                       [] \<Rightarrow> []
                     | dash' # r2 \<Rightarrow>
                         if dash' = 45 then map (\<lambda>(d, r3). (m, d, r3)) (day_alts r2) else [])
                   (month_alts r)) of
               [] \<Rightarrow> Inl ValueError
             | (m, d, r3) # _ \<Rightarrow>
                 (let y = 1000 * digit_val y1 + 100 * digit_val y2 + 10 * digit_val y3
                          + digit_val y4
                  in if r3 = [] \<and> 1 \<le> y \<and> d \<le> days_in_month y m then Inr (VDate y m d)
                     else Inl ValueError))
          else Inl ValueError
      | _ \<Rightarrow> Inl ValueError)"

text \<open>
  \<open>_get_date\<close>: without the container the function falls off its end and returns \<open>None\<close>;
  with it, \<open>.text\<close> is read from the result of each \<open>find\<close>, which fails on \<open>None\<close>.
\<close>

definition element_text :: "xml option \<Rightarrow> error + ustr option" where
  "element_text el = (case el of None \<Rightarrow> Inl AttributeError | Some e \<Rightarrow> Inr (el_text e))"

definition get_date :: "xml \<Rightarrow> ustr \<Rightarrow> error + pyval" where
  "get_date medline_citation_el key =
     (case el_find key medline_citation_el of
        None \<Rightarrow> Inr VNone
      | Some date_el \<Rightarrow>
          and_then (element_text (el_find (u ''Year'') date_el)) (\<lambda>year.
          and_then (element_text (el_find (u ''Month'') date_el)) (\<lambda>month.
          and_then (element_text (el_find (u ''Day'') date_el)) (\<lambda>day.
            strptime (py_str (text_val year) @ u ''-'' @ py_str (text_val month) @ u ''-''
                      @ py_str (text_val day))))))"

text \<open>\<open>_get_texts\<close>: the cleaned segments of the first \<open>Abstract\<close> that are not empty.\<close>

fun texts_loop :: "xml list \<Rightarrow> pyval list" where
  "texts_loop [] = []"
| "texts_loop (abstract_text_el # els) =
     (let abstract_text = clean_text (tostring abstract_text_el)
      in if abstract_text \<noteq> [] then
           VDict ((''text'', VStr abstract_text)
                  # (case map_of (attrib abstract_text_el) (u ''NlmCategory'') of
                       None \<Rightarrow> []
                     | Some c \<Rightarrow> [(''nlm_category'', VStr c)]))
           # texts_loop els
         else texts_loop els)"

definition get_texts :: "xml \<Rightarrow> pyval list" where
  "get_texts article_el =
     (case el_find (u ''Abstract'') article_el of
        None \<Rightarrow> []
      | Some abstract_el \<Rightarrow> texts_loop (el_findall (u ''AbstractText'') abstract_el))"

section \<open>Review classifiers\<close>

definition has_review_text :: "xml list \<Rightarrow> bool" where
  "has_review_text els =
     list_ex (\<lambda>el. case el_text el of None \<Rightarrow> False | Some t \<Rightarrow> py_in (u ''review'') (py_lower t)) els"

fun mesh_loop :: "xml list \<Rightarrow> error + bool" where
  "mesh_loop [] = Inr False"
| "mesh_loop (mesh_heading_el # els) =
     (case el_find (u ''DescriptorName'') mesh_heading_el of
        None \<Rightarrow> Inl AttributeError
      | Some descriptor_name_el \<Rightarrow>
          (case el_text descriptor_name_el of
             None \<Rightarrow> mesh_loop els
           | Some t \<Rightarrow> if py_in (u ''review'') (py_lower t) then Inr True else mesh_loop els))"

definition is_review :: "xml \<Rightarrow> error + bool" where
  "is_review medline_citation_el =
     (case el_find (u ''Article'') medline_citation_el of
        None \<Rightarrow> Inl AttributeError
      | Some article_el \<Rightarrow>
          if (case el_find (u ''PublicationTypeList'') article_el of
                None \<Rightarrow> False
              | Some l \<Rightarrow> has_review_text (el_findall (u ''PublicationType'') l))
          then Inr True
          else
            and_then
              (case el_find (u ''MeshHeadingList'') medline_citation_el of
                 None \<Rightarrow> Inr False
               | Some l \<Rightarrow> mesh_loop (el_findall (u ''MeshHeading'') l))
              (\<lambda>mesh. if mesh then Inr True
                 else Inr (case el_find (u ''KeywordList'') medline_citation_el of
                             None \<Rightarrow> False
                           | Some l \<Rightarrow> has_review_text (el_findall (u ''Keyword'') l))))"

definition filtering_phrases :: "ustr list" where
  "filtering_phrases = [u ''systematic review'']"

definition is_review_in_text :: "ustr \<Rightarrow> bool" where
  "is_review_in_text text = list_ex (\<lambda>phrase. py_in phrase (py_lower text)) filtering_phrases"

section \<open>The article record extractor\<close>

definition source_name :: ustr where
  "source_name = u ''pubmed''"

text \<open>
  The year: \<open>.text\<close> of the structured \<open>Year\<close>, and when that element is missing the first
  four characters of the text of \<open>MedlineDate\<close>, read inside the handler of the first
  failure, so that a missing \<open>MedlineDate\<close> or one without text raises.
\<close>

definition get_year :: "xml \<Rightarrow> error + pyval" where
  "get_year article_el =
     (case find_path (map u [''Journal'', ''JournalIssue'', ''PubDate'', ''Year'']) article_el of
        Some year_el \<Rightarrow> Inr (text_val (el_text year_el))
      | None \<Rightarrow>
          (case find_path (map u [''Journal'', ''JournalIssue'', ''PubDate'', ''MedlineDate''])
                  article_el of
             None \<Rightarrow> Inl AttributeError
           | Some medline_date_el \<Rightarrow>
               (case el_text medline_date_el of
                  None \<Rightarrow> Inl TypeError
                | Some s \<Rightarrow> Inr (VStr (take 4 s)))))"

definition combined_text :: "pydict \<Rightarrow> ustr" where
  "combined_text d =
     py_strip ((case dict_get d ''title'' of None \<Rightarrow> [] | Some v \<Rightarrow> py_str v) @ [10]
               @ (case dict_get d ''abstract_texts'' of None \<Rightarrow> [] | Some v \<Rightarrow> py_str v))"

text \<open>
  The function \<open>_get_abstract_data_from_xml_el\<close>, cut at its blank lines: the title
  (lines 185 to 190), the authors (lines 199 to 203), the three dates (lines 206 to 208),
  everything after the review check (lines 173 to 215), and the whole.
\<close>

definition add_title :: "xml \<Rightarrow> pydict \<Rightarrow> pydict" where
  "add_title article_el d =
     (case el_find (u ''ArticleTitle'') article_el of
        None \<Rightarrow> d
      | Some article_title_el \<Rightarrow>
          (let article_title = clean_text (tostring article_title_el)
           in if article_title \<noteq> [] then dict_set ''title'' (VStr article_title) d else d))"

definition add_authors :: "xml \<Rightarrow> pydict \<Rightarrow> pydict" where
  "add_authors article_el d =
     (case get_authors article_el of
        (authors, collective_name) \<Rightarrow>
          (let d = (if authors \<noteq> [] then dict_set ''authors'' (VList authors) d else d)
           in case collective_name of
                None \<Rightarrow> d
              | Some s \<Rightarrow> dict_set ''collective_name'' (VStr s) d))"

definition add_dates :: "xml \<Rightarrow> xml \<Rightarrow> pydict \<Rightarrow> error + pydict" where
  "add_dates medline_citation_el article_el d =
     and_then (get_date medline_citation_el (u ''DateCompleted'')) (\<lambda>date_completed.
     and_then (get_date medline_citation_el (u ''DateRevised'')) (\<lambda>date_revised.
     and_then (get_date article_el (u ''ArticleDate'')) (\<lambda>date_article.
       Inr (dict_set ''date_article'' date_article
             (dict_set ''date_revised'' date_revised
               (dict_set ''date_completed'' date_completed d))))))"

definition article_record :: "xml \<Rightarrow> xml \<Rightarrow> pydict \<Rightarrow> error + pydict option" where
  "article_record medline_citation_el article_el d0 =
     (let texts = get_texts article_el;
          d1 = (if texts \<noteq> [] then dict_set ''abstract_texts'' (VList texts) d0 else d0)
      in and_then (get_year article_el) (\<lambda>year.
         and_then (element_text (find_path (map u [''Journal'', ''Title'']) article_el))
           (\<lambda>journal_title.
              let d2 = dict_set ''date'' year d1;
                  d3 = dict_set ''journal_title'' (text_val journal_title) d2;
                  d4 = add_title article_el d3
              in if \<not> (dict_get d4 ''title'' \<noteq> None \<or> dict_get d4 ''abstract_texts'' \<noteq> None)
                 then Inr None
                 else if is_review_in_text (combined_text d4) then Inr None
                 else and_then (add_dates medline_citation_el article_el
                                  (add_authors article_el d4))
                        (\<lambda>d5. Inr (Some d5)))))"

definition get_abstract_data_from_xml_el :: "xml \<Rightarrow> error + pydict option" where
  "get_abstract_data_from_xml_el pubmed_article_el =
     (case el_find (u ''MedlineCitation'') pubmed_article_el of
        None \<Rightarrow> Inl AttributeError
      | Some medline_citation_el \<Rightarrow>
          (case el_find (u ''PMID'') medline_citation_el of
             None \<Rightarrow> Inr None
           | Some pmid_el \<Rightarrow>
               (let d = dict_set ''pmid'' (text_val (el_text pmid_el)) [];
                    d0 = dict_set ''id''
                           (VStr (source_name @ u ''_'' @ py_str (text_val (el_text pmid_el)))) d
                in and_then (is_review medline_citation_el) (\<lambda>review.
                     if review then Inr None
                     else (case el_find (u ''Article'') medline_citation_el of
                             None \<Rightarrow> Inl AttributeError
                           | Some article_el \<Rightarrow>
                               article_record medline_citation_el article_el d0)))))"

section \<open>The document iterator\<close>

text \<open>
  \<open>parse_file\<close> is a generator: it yields the records of the entries in document order
  and stops at the first entry that raises. The result is the list of records yielded and
  the exception that ended the iteration, if any.
\<close>

fun parse_articles :: "xml list \<Rightarrow> pydict list \<times> error option" where
  "parse_articles [] = ([], None)"
| "parse_articles (pubmed_article_el # els) =
     (case get_abstract_data_from_xml_el pubmed_article_el of
        Inl e \<Rightarrow> ([], Some e)
      | Inr None \<Rightarrow> parse_articles els
      | Inr (Some article_data) \<Rightarrow>
          (case parse_articles els of (records, e) \<Rightarrow> (article_data # records, e)))"

definition parse_file :: "xml \<Rightarrow> pydict list \<times> error option" where
  "parse_file xml_pubmed_article_set =
     parse_articles (el_findall (u ''PubmedArticle'') xml_pubmed_article_set)"

text \<open>
  The record as it stands when the two discard gates after the review check are reached:
  identifier, abstract segments, year, journal title and title.
\<close>

definition gated_record :: "xml \<Rightarrow> xml \<Rightarrow> pyval \<Rightarrow> ustr option \<Rightarrow> pydict" where
  "gated_record pmid_el article_el year journal_title =
     add_title article_el
       (dict_set ''journal_title'' (text_val journal_title)
         (dict_set ''date'' year
           (if get_texts article_el \<noteq> []
            then dict_set ''abstract_texts'' (VList (get_texts article_el))
                   (dict_set ''id''
                     (VStr (source_name @ u ''_'' @ py_str (text_val (el_text pmid_el))))
                     (dict_set ''pmid'' (text_val (el_text pmid_el)) []))
            else dict_set ''id''
                   (VStr (source_name @ u ''_'' @ py_str (text_val (el_text pmid_el))))
                   (dict_set ''pmid'' (text_val (el_text pmid_el)) []))))"

section \<open>Sample entries\<close>

text \<open>
  Small documents for trying the parser: an entry with identifier \<open>1\<close>, journal \<open>J\<close> and
  title \<open>T\<close>, to which the parts of the publication date, of the article and of the
  citation are added.
\<close>

definition leaf :: "string \<Rightarrow> string \<Rightarrow> xml" where
  "leaf name txt = Element (u name) [] (Some (u txt)) [] None"

definition branch :: "string \<Rightarrow> xml list \<Rightarrow> xml" where
  "branch name cs = Element (u name) [] None cs None"

definition sample_entry :: "xml list \<Rightarrow> xml list \<Rightarrow> xml list \<Rightarrow> xml" where
  "sample_entry pub_date article_parts citation_parts =
     branch ''PubmedArticle''
       [branch ''MedlineCitation''
          ([leaf ''PMID'' ''1''] @ citation_parts @
           [branch ''Article''
              ([branch ''Journal''
                  [branch ''JournalIssue'' [branch ''PubDate'' pub_date], leaf ''Title'' ''J''],
                leaf ''ArticleTitle'' ''T''] @ article_parts)])]"

definition sample_record :: "pyval \<Rightarrow> pyval \<Rightarrow> pydict" where
  "sample_record year date_completed =
     [(''pmid'', VStr (u ''1'')), (''id'', VStr (u ''pubmed_1'')), (''date'', year),
      (''journal_title'', VStr (u ''J'')), (''title'', VStr (u ''T'')),
      (''date_completed'', date_completed), (''date_revised'', VNone),
      (''date_article'', VNone)]"

section \<open>The normalizer on concrete text\<close>

lemmas char_class_defs =
  is_space_def is_digit_def is_alpha_def is_hex_def is_sep_def is_delim_def
  tagname_char_def endname_char_def

lemmas clean_text_defs =
  u_def py_strip_def match_charref_def decode_unicode_references_def callback_def
  py_int_def py_chr_def match_empty_brackets_def delim_group_def
  match_spaces_with_delimeter_def match_whitespaces_def ascii_lower_def lex_tag_def
  lex_ref_def entity_table_def void_elements_def BeautifulSoup_def clean_text_def
  handle_charref_def windows_1252_def hex_val_def

text \<open>
  C2 (amended). On the segment
  \<open><i>Background</i>: values were <sup>2</sup>elevated [12].\<close> the normalizer strips the
  \<open>i\<close> tag and turns the superscript into \<open>-2\<close>, and it keeps the citation \<open>[12]\<close>: the
  bracket pattern removes only brackets that hold nothing but separators.
\<close>

theorem clean_text_background:
  "clean_text (u ''<i>Background</i>: values were <sup>2</sup>elevated [12].'')
     = u ''Background: values were -2elevated [12].''"
  by (simp add: clean_text_defs char_class_defs)

text \<open>C2 as stated fails: the result is not the text without the citation.\<close>

theorem clean_text_background_keeps_citation:
  "clean_text (u ''<i>Background</i>: values were <sup>2</sup>elevated [12].'')
     \<noteq> u ''Background: values were -2elevated.''"
  by (simp add: clean_text_defs char_class_defs)

section \<open>Numeric character references are decoded one by one\<close>

lemma re_sub_append:
  assumes "\<And>p. p \<noteq> [] \<Longrightarrow> m (p @ X) = map_option (\<lambda>(rep, t). (rep, t @ X)) (m p)"
  shows "re_sub m (p @ X) = re_sub m p @ re_sub m X"
  using assms
proof (induction m p rule: re_sub.induct)
  case (1 m)
  then show ?case by simp
next
  case (2 m c s)
  have eq: "m ((c # s) @ X) = map_option (\<lambda>(rep, t). (rep, t @ X)) (m (c # s))"
    using "2.prems" by blast
  show ?case
  proof (cases "m (c # s)")
    case None
    then show ?thesis using eq 2 by simp
  next
    case (Some a)
    obtain rep rest where a: "a = (rep, rest)" by (cases a)
    show ?thesis
    proof (cases "length rest \<le> length s")
      case True
      then show ?thesis using eq Some a 2 by simp
    next
      case False
      then show ?thesis using eq Some a 2 by simp
    qed
  qed
qed

lemma match_charref_before_amp:
  assumes "p \<noteq> []"
  shows "match_charref (p @ 38 # x) = map_option (\<lambda>(rep, t). (rep, t @ 38 # x)) (match_charref p)"
proof (cases p)
  case Nil
  then show ?thesis using assms by simp
next
  case (Cons a q)
  show ?thesis
  proof (cases q)
    case Nil
    then show ?thesis using Cons by (simp add: match_charref_def is_digit_def)
  next
    case (Cons h r)
    show ?thesis
    proof (cases "list_all is_digit r")
      case True
      then have t: "takeWhile is_digit (r @ 38 # x) = r" "dropWhile is_digit (r @ 38 # x) = 38 # x"
        "takeWhile is_digit r = r" "dropWhile is_digit r = []"
        by (auto simp: list_all_iff is_digit_def takeWhile_tail)
      show ?thesis unfolding \<open>p = a # q\<close> Cons match_charref_def
        by (simp add: t is_space_def)
    next
      case False
      then obtain z where z: "z \<in> set r" "\<not> is_digit z" by (auto simp: list_all_iff)
      then have t: "takeWhile is_digit (r @ 38 # x) = takeWhile is_digit r"
        "dropWhile is_digit (r @ 38 # x) = dropWhile is_digit r @ 38 # x"
        by auto
      show ?thesis unfolding \<open>p = a # q\<close> Cons match_charref_def
        using z by (auto simp: t split: list.splits)
    qed
  qed
qed

lemma match_charref_semicolon:
  assumes "ds \<noteq> []" "list_all is_digit ds"
  shows "match_charref (38 # 35 # ds @ 59 # rest) = Some (callback ds, rest)"
proof -
  have "takeWhile is_digit (ds @ 59 # rest) = ds" "dropWhile is_digit (ds @ 59 # rest) = 59 # rest"
    using assms by (auto simp: list_all_iff is_digit_def takeWhile_tail)
  then show ?thesis using assms(1) by (simp add: match_charref_def)
qed

lemma match_charref_space:
  assumes "ds \<noteq> []" "list_all is_digit ds" "is_space w"
  shows "match_charref (38 # 35 # ds @ w # rest) = Some (callback ds, w # rest)"
proof -
  have "\<not> is_digit w" "w \<noteq> 59" using assms(3) by (auto simp: is_space_def is_digit_def)
  then have "takeWhile is_digit (ds @ w # rest) = ds" "dropWhile is_digit (ds @ w # rest) = w # rest"
    using assms by (auto simp: list_all_iff takeWhile_tail)
  then show ?thesis using assms \<open>w \<noteq> 59\<close> by (simp add: match_charref_def)
qed

lemma callback_digits:
  assumes "ds \<noteq> []" "list_all is_digit ds"
  shows "\<exists>n. py_int ds = Inr n \<and> 0 \<le> n \<and> callback ds = (if n < 1114112 then [nat n] else ds)"
proof -
  have "0 \<le> foldl (\<lambda>n d. 10 * n + (int d - 48)) a ds" if "0 \<le> a" for a
    using assms(2) that by (induction ds arbitrary: a) (auto simp: is_digit_def)
  then show ?thesis using assms by (simp add: py_int_def callback_def py_chr_def)
qed

text \<open>
  C9. \<open>_decode_unicode_references\<close> is a total function: the callback turns every failure
  of \<open>int\<close> or \<open>chr\<close> into a result. An occurrence \<open>&#NNN;\<close>, and an occurrence \<open>&#NNN\<close>
  before a whitespace, is replaced by the callback's result while the text before and
  after it is decoded on its own; that result is the character with code \<open>NNN\<close> when
  \<open>NNN\<close> is a code point, and the digits themselves otherwise.
\<close>

theorem decode_unicode_references_occurrence:
  assumes "ds \<noteq> []" and "list_all is_digit ds"
  shows "decode_unicode_references (pre @ u ''&#'' @ ds @ u '';'' @ rest)
           = decode_unicode_references pre @ callback ds @ decode_unicode_references rest
       \<and> (is_space w \<longrightarrow>
            decode_unicode_references (pre @ u ''&#'' @ ds @ w # rest)
              = decode_unicode_references pre @ callback ds @ decode_unicode_references (w # rest))
       \<and> (\<exists>n. py_int ds = Inr n \<and> callback ds = (if n < 1114112 then [nat n] else ds))"
proof -
  have a: "re_sub match_charref (pre @ 38 # x) = re_sub match_charref pre @ re_sub match_charref (38 # x)" for x
    by (rule re_sub_append) (rule match_charref_before_amp)
  have b: "re_sub match_charref (38 # 35 # ds @ 59 # rest) = callback ds @ re_sub match_charref rest"
    using match_charref_semicolon [OF assms, of rest] by simp
  have c: "re_sub match_charref (38 # 35 # ds @ w # rest) = callback ds @ re_sub match_charref (w # rest)"
    if "is_space w"
    using match_charref_space [OF assms that, of rest] by simp
  show ?thesis
    using a b c callback_digits [OF assms]
    by (auto simp: decode_unicode_references_def u_def)
qed

theorem decode_unicode_references_occurrence_witness:
  "decode_unicode_references (u ''x'' @ u ''&#'' @ u ''65'' @ u '';'' @ u ''y'') = u ''xAy''
   \<and> decode_unicode_references (u ''&#'' @ u ''1114112'' @ 32 # u ''&#9'') = u ''1114112 &#9''"
  using decode_unicode_references_occurrence [of "u ''65''" "u ''x''" "u ''y''" 32]
    decode_unicode_references_occurrence [of "u ''1114112''" "[]" "u ''&#9''" 32]
  by (simp add: clean_text_defs char_class_defs)

section \<open>What the normalizer can leave in the text\<close>

lemma re_sub_set:
  assumes "\<And>t rep rest. m t = Some (rep, rest) \<Longrightarrow> set rep \<subseteq> R \<and> set rest \<subseteq> set t"
  shows "set (re_sub m s) \<subseteq> set s \<union> R"
  using assms
proof (induction m s rule: re_sub.induct)
  case (1 m)
  then show ?case by simp
next
  case (2 m c s)
  show ?case
  proof (cases "m (c # s)")
    case None
    then show ?thesis using 2 by auto
  next
    case (Some a)
    obtain rep rest where a: "a = (rep, rest)" by (cases a)
    have r: "set rep \<subseteq> R" "set rest \<subseteq> set (c # s)" using "2.prems" Some a by blast+
    show ?thesis
    proof (cases "length rest \<le> length s")
      case True
      then have "set (re_sub m rest) \<subseteq> set rest \<union> R" using 2 Some a by blast
      then show ?thesis using Some a True r by auto
    next
      case False
      then have "set (re_sub m s) \<subseteq> set s \<union> R" using 2 Some a by blast
      then show ?thesis using Some a False by auto
    qed
  qed
qed

lemma re_sub_id:
  assumes "\<And>t. t \<noteq> [] \<Longrightarrow> set t \<subseteq> set s \<Longrightarrow> m t = None"
  shows "re_sub m s = s"
  using assms
proof (induction s)
  case Nil
  then show ?case by simp
next
  case (Cons c s)
  have "m (c # s) = None" using Cons.prems by simp
  moreover have "re_sub m s = s" using Cons by (meson set_subset_Cons subset_trans)
  ultimately show ?case by simp
qed

lemma match_charref_no_amp: "38 \<notin> set t \<Longrightarrow> match_charref t = None"
  by (auto simp: match_charref_def split: list.splits)

lemma decode_no_amp: "38 \<notin> set s \<Longrightarrow> decode_unicode_references s = s"
  unfolding decode_unicode_references_def
  by (rule re_sub_id) (auto intro: match_charref_no_amp)

lemma match_empty_brackets_none:
  assumes "91 \<notin> set t" "40 \<notin> set t"
  shows "match_empty_brackets t = None"
proof (cases "dropWhile is_space t")
  case Nil
  show ?thesis unfolding match_empty_brackets_def Nil by simp
next
  case (Cons b r)
  then have "b \<in> set t" by (metis list.set_intros(1) set_dropWhileD)
  then have "b \<noteq> 91" "b \<noteq> 40" using assms by auto
  then show ?thesis unfolding match_empty_brackets_def Cons by simp
qed

lemma delim_group_none:
  assumes "\<forall>c\<in>set t. \<not> is_delim c"
  shows "delim_group t = None"
proof (cases "dropWhile is_space t")
  case Nil
  show ?thesis unfolding delim_group_def Nil by simp
next
  case (Cons d r)
  then have "d \<in> set t" by (metis list.set_intros(1) set_dropWhileD)
  then have "\<not> is_delim d" using assms by auto
  then show ?thesis unfolding delim_group_def Cons by (simp split: list.splits)
qed

lemma set_dropWhile_Cons: "dropWhile P t = b # r \<Longrightarrow> set r \<subseteq> set t"
  by (metis set_dropWhileD list.set_intros(2) subsetI)

lemma match_empty_brackets_set:
  assumes "match_empty_brackets t = Some (rep, rest)"
  shows "rep = [] \<and> set rest \<subseteq> set t"
proof (cases "dropWhile is_space t")
  case Nil
  show ?thesis using assms by (simp add: match_empty_brackets_def Nil)
next
  case outer: (Cons b r)
  note r = set_dropWhile_Cons [OF outer]
  show ?thesis
  proof (cases "dropWhile is_sep r")
    case Nil
    show ?thesis using assms by (simp add: match_empty_brackets_def outer Nil split: if_splits)
  next
    case (Cons c rest')
    have "set rest' \<subseteq> set r" by (rule set_dropWhile_Cons [OF Cons])
    then show ?thesis using assms r
      by (auto simp: match_empty_brackets_def outer Cons split: if_splits)
  qed
qed

lemma delim_group_set:
  assumes "delim_group t = Some rest"
  shows "set rest \<subseteq> set t \<and> length rest < length t"
proof (cases "dropWhile is_space t")
  case Nil
  show ?thesis using assms by (simp add: delim_group_def Nil split: if_splits)
next
  case (Cons d r)
  have "length (dropWhile is_space t) \<le> length t" by (rule length_dropWhile_le)
  then have l: "Suc (length r) \<le> length t" unfolding Cons by simp
  have "set r \<subseteq> set t" by (rule set_dropWhile_Cons [OF Cons])
  then show ?thesis using assms l
    by (auto simp: delim_group_def Cons split: if_splits list.splits)
qed

lemma delim_groups_set: "set (delim_groups s) \<subseteq> set s"
proof (induction s rule: delim_groups.induct)
  case 1
  then show ?case by simp
next
  case (2 c s)
  show ?case
  proof (cases "delim_group (c # s)")
    case None
    then show ?thesis by simp
  next
    case (Some rest)
    then show ?thesis using 2 delim_group_set [OF Some] by (auto split: if_splits)
  qed
qed

lemma match_spaces_with_delimeter_set:
  assumes "match_spaces_with_delimeter t = Some (rep, rest)"
  shows "rep = [32] \<and> set rest \<subseteq> set t"
  using assms delim_group_set delim_groups_set
  by (fastforce simp: match_spaces_with_delimeter_def split: option.splits)

lemma match_whitespaces_set:
  assumes "match_whitespaces t = Some (rep, rest)"
  shows "rep = [32] \<and> set rest \<subseteq> set t"
  using assms by (auto simp: match_whitespaces_def split: if_splits dest: set_dropWhileD)

lemma py_strip_set: "set (py_strip s) \<subseteq> set s"
  by (auto simp: py_strip_def dest!: set_dropWhileD)


lemma extract_links_text: "set (concat (map get_text (extract_links n))) \<subseteq> set (get_text n)"
  by (induction n rule: get_text.induct) auto

lemma replace_sub_sup_text: "set (get_text (replace_sub_sup n)) \<subseteq> insert 45 (set (get_text n))"
  by (induction n rule: get_text.induct) auto

lemma tree_text_set:
  "set (concat (map get_text (map replace_sub_sup (concat (map extract_links ns)))))
     \<subseteq> insert 45 (set (concat (map get_text ns)))"
proof
  fix c
  assume "c \<in> set (concat (map get_text (map replace_sub_sup (concat (map extract_links ns)))))"
  then obtain n k where n: "n \<in> set ns" and k: "k \<in> set (extract_links n)"
    and c: "c \<in> set (get_text (replace_sub_sup k))"
    by auto
  from c have "c = 45 \<or> c \<in> set (get_text k)" using replace_sub_sup_text by blast
  moreover have "set (get_text k) \<subseteq> set (get_text n)" using k extract_links_text [of n] by auto
  ultimately show "c \<in> insert 45 (set (concat (map get_text ns)))" using n by auto
qed

lemma regex_steps_set:
  "set (py_strip (re_sub match_whitespaces (re_sub match_spaces_with_delimeter
      (re_sub match_empty_brackets s)))) \<subseteq> insert 32 (set s)"
proof -
  have a: "set (re_sub match_empty_brackets s) \<subseteq> set s \<union> {32}"
    by (rule re_sub_set) (use match_empty_brackets_set in fastforce)
  have b: "set (re_sub match_spaces_with_delimeter t) \<subseteq> set t \<union> {32}" for t
    by (rule re_sub_set) (use match_spaces_with_delimeter_set in fastforce)
  have c: "set (re_sub match_whitespaces t) \<subseteq> set t \<union> {32}" for t
    by (rule re_sub_set) (use match_whitespaces_set in fastforce)
  show ?thesis
    using a b [of "re_sub match_empty_brackets s"]
      c [of "re_sub match_spaces_with_delimeter (re_sub match_empty_brackets s)"]
      py_strip_set [of "re_sub match_whitespaces (re_sub match_spaces_with_delimeter
      (re_sub match_empty_brackets s))"]
    by blast
qed

text \<open>
  C5 (amended). When the character data of the parsed fragment holds no \<open><\<close>, \<open>>\<close> or
  \<open>&\<close>, the output of the normalizer holds none of them: every tag is stripped, and
  without \<open>&\<close> there is no numeric character reference. The normalizer adds only hyphens
  and spaces.
\<close>

theorem clean_text_no_delimiters:
  assumes "set (concat (map get_text (BeautifulSoup x))) \<inter> {38, 60, 62} = {}"
  shows "set (clean_text x) \<inter> {38, 60, 62} = {}"
proof -
  define t where "t = concat (map get_text (map replace_sub_sup (concat (map extract_links (BeautifulSoup x)))))"
  have t: "set t \<subseteq> insert 45 (set (concat (map get_text (BeautifulSoup x))))"
    unfolding t_def by (rule tree_text_set)
  then have no: "set t \<inter> {38, 60, 62} = {}" using assms by auto
  then have "decode_unicode_references t = t" by (intro decode_no_amp) auto
  then have "clean_text x = py_strip (re_sub match_whitespaces (re_sub match_spaces_with_delimeter
      (re_sub match_empty_brackets t)))"
    by (simp add: clean_text_def t_def Let_def)
  then have "set (clean_text x) \<subseteq> insert 32 (set t)" using regex_steps_set [of t] by simp
  then show ?thesis using no by auto
qed

theorem clean_text_no_delimiters_witness:
  "set (clean_text (u ''<i>Background</i>: values were <sup>2</sup>elevated [12].''))
     \<inter> {38, 60, 62} = {}"
  using clean_text_no_delimiters [of "u ''<i>Background</i>: values were <sup>2</sup>elevated [12].''"]
  by (simp add: clean_text_defs char_class_defs)

text \<open>
  C5 as stated fails: \<open>>\<close> and a decoded \<open>&lt;\<close> are character data and reach the
  output, and the single left-to-right pass over \<open>&#38;#65;\<close> leaves \<open>&#65;\<close>.
\<close>

theorem clean_text_keeps_delimiters:
  "62 \<in> set (clean_text (u ''a > b'')) \<and> 60 \<in> set (clean_text (u ''1 &lt; 2''))
   \<and> clean_text (u ''&amp;#38;#65;'') = u ''&#65;''"
  by (simp add: clean_text_defs char_class_defs)

section \<open>A second pass of the normalizer\<close>

lemma no_ws_pair_Cons:
  "no_ws_pair (c # t) \<longleftrightarrow> (t = [] \<or> \<not> (is_space c \<and> is_space (hd t))) \<and> no_ws_pair t"
  by (cases t) auto

lemma no_ws_pair_append: "no_ws_pair (xs @ ys) \<Longrightarrow> no_ws_pair xs \<and> no_ws_pair ys"
proof (induction xs)
  case Nil
  then show ?case by simp
next
  case (Cons a xs)
  then show ?case by (cases xs; cases ys) (auto simp: no_ws_pair_Cons)
qed

lemma no_ws_pair_sublist: "sublist xs ys \<Longrightarrow> no_ws_pair ys \<Longrightarrow> no_ws_pair xs"
  unfolding sublist_def using no_ws_pair_append by blast

lemma sublist_py_strip: "sublist (py_strip s) s"
proof -
  have "sublist (dropWhile is_space (rev (dropWhile is_space s))) (rev (dropWhile is_space s))"
    by (simp add: suffix_dropWhile)
  then have "sublist (py_strip s) (dropWhile is_space s)"
    by (simp add: py_strip_def sublist_rev_left)
  moreover have "sublist (dropWhile is_space s) s" by (simp add: suffix_dropWhile)
  ultimately show ?thesis by (rule sublist_order.order.trans)
qed

lemma match_whitespaces_nonspace: "\<not> is_space a \<Longrightarrow> match_whitespaces (a # t) = None"
  by (simp add: match_whitespaces_def)

lemma re_sub_whitespaces_hd:
  "\<not> is_space a \<Longrightarrow> re_sub match_whitespaces (a # t) = a # re_sub match_whitespaces t"
  by (simp add: match_whitespaces_nonspace)

lemma no_ws_pair_re_sub: "no_ws_pair (re_sub match_whitespaces s)"
proof (induction s rule: length_induct)
  case (1 s)
  show ?case
  proof (cases s)
    case Nil
    then show ?thesis by simp
  next
    case (Cons c t)
    have IHt: "no_ws_pair (re_sub match_whitespaces t)" using 1 Cons by simp
    show ?thesis
    proof (cases "2 \<le> length (takeWhile is_space (c # t))")
      case True
      define r where "r = dropWhile is_space (c # t)"
      have lr: "length r \<le> length t"
        using True length_takeWhile_le [of is_space "c # t"]
          arg_cong [OF takeWhile_dropWhile_id [of is_space "c # t"], of length]
        unfolding r_def by (simp del: takeWhile_dropWhile_id)
      have m: "match_whitespaces (c # t) = Some ([32], r)"
        using True by (simp add: match_whitespaces_def r_def)
      have IHr: "no_ws_pair (re_sub match_whitespaces r)" using 1 Cons lr by simp
      have out: "re_sub match_whitespaces s = 32 # re_sub match_whitespaces r"
        using m lr Cons by simp
      show ?thesis
      proof (cases r)
        case Nil
        then show ?thesis using out by simp
      next
        case (Cons a r')
        have "\<not> is_space a" using hd_dropWhile [of is_space "c # t"] Cons unfolding r_def by simp
        then have "re_sub match_whitespaces r = a # re_sub match_whitespaces r'"
          unfolding Cons by (rule re_sub_whitespaces_hd)
        then show ?thesis using out IHr \<open>\<not> is_space a\<close>
          by (simp add: no_ws_pair_Cons del: re_sub.simps(2))
      qed
    next
      case False
      then have m: "match_whitespaces (c # t) = None" by (simp add: match_whitespaces_def)
      have out: "re_sub match_whitespaces s = c # re_sub match_whitespaces t"
        using m Cons by simp
      show ?thesis
      proof (cases "is_space c \<and> t \<noteq> []")
        case True
        then obtain a t' where t: "t = a # t'" by (cases t) auto
        have "\<not> is_space a" using False True t by auto
        then have "re_sub match_whitespaces t = a # re_sub match_whitespaces t'"
          unfolding t by (rule re_sub_whitespaces_hd)
        then show ?thesis using out IHt \<open>\<not> is_space a\<close>
          by (simp add: no_ws_pair_Cons del: re_sub.simps(2))
      next
        case False
        then show ?thesis using out IHt by (auto simp: no_ws_pair_Cons simp del: re_sub.simps(2))
      qed
    qed
  qed
qed

lemma re_sub_whitespaces_id: "no_ws_pair s \<Longrightarrow> re_sub match_whitespaces s = s"
proof (induction s)
  case Nil
  then show ?case by simp
next
  case (Cons c s)
  have "match_whitespaces (c # s) = None"
    using Cons.prems by (cases s) (auto simp: match_whitespaces_def)
  then show ?case using Cons by (simp add: no_ws_pair_Cons)
qed

lemma py_strip_idem: "py_strip (py_strip s) = py_strip s"
proof -
  define t where "t = dropWhile is_space s"
  define y where "y = rev (dropWhile is_space (rev t))"
  have y: "py_strip s = y" by (simp add: py_strip_def y_def t_def)
  have split: "t = y @ rev (takeWhile is_space (rev t))"
    unfolding y_def by (metis rev_append rev_rev_ident takeWhile_dropWhile_id)
  have dy: "dropWhile is_space y = y"
  proof (cases y)
    case Nil
    then show ?thesis by simp
  next
    case (Cons a y')
    then have "t = a # (y' @ rev (takeWhile is_space (rev t)))" using split by simp
    then have "t \<noteq> []" "hd t = a" by (metis list.distinct(1), metis list.sel(1))
    then have "\<not> is_space a" using hd_dropWhile [of is_space s] by (simp add: t_def)
    then show ?thesis using Cons by simp
  qed
  have "dropWhile is_space (rev y) = rev y" by (simp add: y_def)
  then have "py_strip y = y" by (simp add: py_strip_def dy)
  then show ?thesis using y by simp
qed

lemma tokenize_plain:
  "38 \<notin> set s \<Longrightarrow> 60 \<notin> set s \<Longrightarrow> tokenize s = (if s = [] then [] else [Data s])"
  by (induction s) auto

lemma BeautifulSoup_plain:
  assumes "38 \<notin> set s" "60 \<notin> set s"
  shows "BeautifulSoup s = (if s = [] then [] else [NavigableString s])"
  using assms by (simp add: BeautifulSoup_def tokenize_plain)

lemma clean_text_plain:
  assumes "38 \<notin> set s" "60 \<notin> set s"
  shows "clean_text s = py_strip (re_sub match_whitespaces (re_sub match_spaces_with_delimeter
      (re_sub match_empty_brackets s)))"
  using assms by (simp add: clean_text_def BeautifulSoup_plain decode_no_amp)

lemma match_spaces_with_delimeter_none:
  "\<forall>c\<in>set t. \<not> is_delim c \<Longrightarrow> match_spaces_with_delimeter t = None"
  by (simp add: match_spaces_with_delimeter_def delim_group_none)

text \<open>
  C4 (amended). A second pass changes nothing whenever the result of the first pass holds
  none of the characters \<open>&\<close>, \<open><\<close>, \<open>[\<close>, \<open>(\<close>, \<open>-\<close>, \<open>,\<close> and \<open>;\<close>: such a result is
  parsed as plain character data, no pattern matches in it, its whitespace runs are
  already single and its ends are already trimmed.
\<close>

theorem clean_text_fixed_point:
  assumes "set (clean_text x) \<inter> {38, 60, 91, 40, 45, 44, 59} = {}"
  shows "clean_text (clean_text x) = clean_text x"
proof -
  define y where "y = clean_text x"
  obtain z where z: "y = py_strip (re_sub match_whitespaces z)"
    unfolding y_def clean_text_def Let_def by blast
  have no: "38 \<notin> set y" "60 \<notin> set y" "91 \<notin> set y" "40 \<notin> set y" "\<forall>c\<in>set y. \<not> is_delim c"
    using assms unfolding y_def is_delim_def by auto
  have b: "re_sub match_empty_brackets y = y"
    by (rule re_sub_id) (use no in \<open>auto intro!: match_empty_brackets_none\<close>)
  have d: "re_sub match_spaces_with_delimeter y = y"
    by (rule re_sub_id) (use no in \<open>auto intro!: match_spaces_with_delimeter_none\<close>)
  have "no_ws_pair y"
    unfolding z by (rule no_ws_pair_sublist [OF sublist_py_strip no_ws_pair_re_sub])
  then have w: "re_sub match_whitespaces y = y" by (rule re_sub_whitespaces_id)
  have s: "py_strip y = y" unfolding z by (rule py_strip_idem)
  have "clean_text y = y" using no by (simp add: clean_text_plain b d w s)
  then show ?thesis by (simp add: y_def)
qed

theorem clean_text_fixed_point_witness:
  "clean_text (clean_text (u ''<i>Background</i>: values  were elevated.''))
     = clean_text (u ''<i>Background</i>: values  were elevated.'')"
proof -
  have h: "set (clean_text (u ''<i>Background</i>: values  were elevated.''))
             \<inter> {38, 60, 91, 40, 45, 44, 59} = {}"
    by (simp add: clean_text_defs char_class_defs)
  show ?thesis by (rule clean_text_fixed_point [OF h])
qed

text \<open>
  C4 as stated fails: each pass removes one pair of empty parentheses, so the first pass
  turns \<open>a ( ( ))\<close> into \<open>a ()\<close> and the second pass turns that into \<open>a\<close>.
\<close>

theorem clean_text_not_idempotent:
  "clean_text (clean_text (u ''a ( ( ))'')) \<noteq> clean_text (u ''a ( ( ))'')"
  by (simp add: clean_text_defs char_class_defs)

section \<open>What an emitted record is made of\<close>

lemma dict_get_set [simp]:
  "dict_get (dict_set k v d) k' = (if k' = k then Some v else dict_get d k')"
  by (simp add: dict_get_def dict_set_def update_conv')

lemma dict_get_Nil [simp]: "dict_get [] k = None"
  by (simp add: dict_get_def)

lemma and_then_Inr: "and_then r f = Inr y \<longleftrightarrow> (\<exists>x. r = Inr x \<and> f x = Inr y)"
  by (cases r) (auto simp: and_then_def)

lemma and_then_simps [simp]: "and_then (Inl e) f = Inl e" "and_then (Inr x) f = f x"
  by (simp_all add: and_then_def)

lemma add_dates_Inr:
  "add_dates m a d = Inr d' \<longleftrightarrow>
     (\<exists>dc dr da. get_date m (u ''DateCompleted'') = Inr dc \<and> get_date m (u ''DateRevised'') = Inr dr
        \<and> get_date a (u ''ArticleDate'') = Inr da
        \<and> d' = dict_set ''date_article'' da (dict_set ''date_revised'' dr
                  (dict_set ''date_completed'' dc d)))"
  by (auto simp: add_dates_def and_then_Inr)

lemma article_record_Some:
  assumes "article_record m a d0 = Inr (Some r)"
  shows "\<exists>year jt dc dr da.
     get_year a = Inr year
     \<and> element_text (find_path (map u [''Journal'', ''Title'']) a) = Inr jt
     \<and> get_date m (u ''DateCompleted'') = Inr dc \<and> get_date m (u ''DateRevised'') = Inr dr
     \<and> get_date a (u ''ArticleDate'') = Inr da
     \<and> (let g = add_title a (dict_set ''journal_title'' (text_val jt) (dict_set ''date'' year
                  (if get_texts a \<noteq> [] then dict_set ''abstract_texts'' (VList (get_texts a)) d0 else d0)))
        in (dict_get g ''title'' \<noteq> None \<or> dict_get g ''abstract_texts'' \<noteq> None)
           \<and> \<not> is_review_in_text (combined_text g)
           \<and> r = dict_set ''date_article'' da (dict_set ''date_revised'' dr
                    (dict_set ''date_completed'' dc (add_authors a g))))"
proof -
  from assms obtain year jt where y: "get_year a = Inr year"
    and j: "element_text (find_path (map u [''Journal'', ''Title'']) a) = Inr jt"
    and rest: "(let g = add_title a (dict_set ''journal_title'' (text_val jt) (dict_set ''date'' year
                  (if get_texts a \<noteq> [] then dict_set ''abstract_texts'' (VList (get_texts a)) d0 else d0)))
        in if \<not> (dict_get g ''title'' \<noteq> None \<or> dict_get g ''abstract_texts'' \<noteq> None) then Inr None
           else if is_review_in_text (combined_text g) then Inr None
           else and_then (add_dates m a (add_authors a g)) (\<lambda>d5. Inr (Some d5))) = Inr (Some r)"
    unfolding article_record_def Let_def and_then_Inr by blast
  define g where "g = add_title a (dict_set ''journal_title'' (text_val jt) (dict_set ''date'' year
                  (if get_texts a \<noteq> [] then dict_set ''abstract_texts'' (VList (get_texts a)) d0 else d0)))"
  from rest have gate: "dict_get g ''title'' \<noteq> None \<or> dict_get g ''abstract_texts'' \<noteq> None"
    and phrase: "\<not> is_review_in_text (combined_text g)"
    and fin: "and_then (add_dates m a (add_authors a g)) (\<lambda>d5. Inr (Some d5)) = Inr (Some r)"
    unfolding g_def [symmetric] Let_def by (auto split: if_splits)
  from fin have "add_dates m a (add_authors a g) = Inr r" by (auto simp: and_then_Inr)
  then obtain dc dr da where "get_date m (u ''DateCompleted'') = Inr dc"
    "get_date m (u ''DateRevised'') = Inr dr" "get_date a (u ''ArticleDate'') = Inr da"
    "r = dict_set ''date_article'' da (dict_set ''date_revised'' dr
                    (dict_set ''date_completed'' dc (add_authors a g)))"
    unfolding add_dates_Inr by blast
  then show ?thesis using y j gate phrase unfolding g_def Let_def by blast
qed

lemma emitted_record:
  assumes "get_abstract_data_from_xml_el el = Inr (Some r)"
  shows "\<exists>m p a year jt dc dr da.
     el_find (u ''MedlineCitation'') el = Some m \<and> el_find (u ''PMID'') m = Some p
     \<and> is_review m = Inr False \<and> el_find (u ''Article'') m = Some a
     \<and> get_year a = Inr year
     \<and> element_text (find_path (map u [''Journal'', ''Title'']) a) = Inr jt
     \<and> get_date m (u ''DateCompleted'') = Inr dc \<and> get_date m (u ''DateRevised'') = Inr dr
     \<and> get_date a (u ''ArticleDate'') = Inr da
     \<and> (dict_get (gated_record p a year jt) ''title'' \<noteq> None
          \<or> dict_get (gated_record p a year jt) ''abstract_texts'' \<noteq> None)
     \<and> \<not> is_review_in_text (combined_text (gated_record p a year jt))
     \<and> r = dict_set ''date_article'' da (dict_set ''date_revised'' dr
              (dict_set ''date_completed'' dc (add_authors a (gated_record p a year jt))))"
proof -
  from assms obtain m where m: "el_find (u ''MedlineCitation'') el = Some m"
    by (auto simp: get_abstract_data_from_xml_el_def split: option.splits)
  from assms m obtain p where p: "el_find (u ''PMID'') m = Some p"
    by (auto simp: get_abstract_data_from_xml_el_def split: option.splits)
  from assms m p have rv: "is_review m = Inr False"
    by (cases "is_review m") (auto simp: get_abstract_data_from_xml_el_def Let_def split: if_splits)
  from assms m p rv obtain a where a: "el_find (u ''Article'') m = Some a"
    by (auto simp: get_abstract_data_from_xml_el_def Let_def split: option.splits)
  from assms m p rv a have
    "article_record m a (dict_set ''id'' (VStr (source_name @ u ''_'' @ py_str (text_val (el_text p))))
        (dict_set ''pmid'' (text_val (el_text p)) [])) = Inr (Some r)"
    by (simp add: get_abstract_data_from_xml_el_def Let_def)
  from article_record_Some [OF this] show ?thesis
    using m p rv a unfolding gated_record_def Let_def by blast
qed

lemma dict_get_add_title:
  "dict_get (add_title a d) k =
     (case el_find (u ''ArticleTitle'') a of
        None \<Rightarrow> dict_get d k
      | Some t \<Rightarrow> if k = ''title'' \<and> clean_text (tostring t) \<noteq> []
                  then Some (VStr (clean_text (tostring t))) else dict_get d k)"
  by (simp add: add_title_def Let_def split: option.splits)

lemma dict_get_add_authors:
  "dict_get (add_authors a d) k =
     (if k = ''collective_name'' \<and> snd (get_authors a) \<noteq> None
      then map_option VStr (snd (get_authors a))
      else if k = ''authors'' \<and> fst (get_authors a) \<noteq> []
      then Some (VList (fst (get_authors a)))
      else dict_get d k)"
  by (cases "get_authors a") (auto simp: add_authors_def Let_def split: option.splits)

lemma parse_articles_records:
  "r \<in> set (fst (parse_articles els)) \<Longrightarrow>
     \<exists>el\<in>set els. get_abstract_data_from_xml_el el = Inr (Some r)"
proof (induction els)
  case Nil
  then show ?case by simp
next
  case (Cons el els)
  then show ?case
    by (cases "get_abstract_data_from_xml_el el")
       (auto split: option.splits prod.splits)
qed

lemma parse_file_records:
  assumes "r \<in> set (fst (parse_file doc))"
  shows "\<exists>el\<in>set (children doc). tag el = u ''PubmedArticle''
           \<and> get_abstract_data_from_xml_el el = Inr (Some r)"
  using parse_articles_records [OF assms [unfolded parse_file_def]]
  by (auto simp: el_findall_def)


lemma parse_articles_skip:
  "get_abstract_data_from_xml_el el = Inr None \<Longrightarrow>
     parse_articles (pre @ el # post) = parse_articles (pre @ post)"
  by (induction pre) (auto split: sum.splits option.splits prod.splits)


lemma parse_articles_no_record:
  assumes "\<forall>r. get_abstract_data_from_xml_el el \<noteq> Inr (Some r)"
  shows "fst (parse_articles (pre @ el # post)) = fst (parse_articles (pre @ post))
       \<or> fst (parse_articles (pre @ el # post)) = fst (parse_articles pre)"
proof (induction pre)
  case Nil
  show ?case
  proof (cases "get_abstract_data_from_xml_el el")
    case (Inl e)
    then show ?thesis by simp
  next
    case (Inr x)
    then have "x = None" using assms by (cases x) auto
    then show ?thesis using Inr by simp
  qed
next
  case (Cons x pre)
  then show ?case by (auto split: sum.splits option.splits prod.splits)
qed

lemma el_findall_append:
  "el_findall name (Element n as tx (pre @ el # post) tail_text)
     = filter (\<lambda>c. tag c = name) pre @ (if tag el = name then [el] else [])
       @ filter (\<lambda>c. tag c = name) post"
  "el_findall name (Element n as tx (pre @ post) tail_text)
     = filter (\<lambda>c. tag c = name) pre @ filter (\<lambda>c. tag c = name) post"
  "el_findall name (Element n as tx pre tail_text) = filter (\<lambda>c. tag c = name) pre"
  by (simp_all add: el_findall_def)

lemma strptime_not_None: "strptime s \<noteq> Inr VNone"
  by (auto simp: strptime_def Let_def split: list.splits if_splits prod.splits)

lemma get_date_None:
  "get_date el key = Inr v \<Longrightarrow> v = VNone \<longleftrightarrow> el_find key el = None"
  by (auto simp: get_date_def and_then_Inr strptime_not_None split: option.splits)

lemma has_review_textI:
  "pt \<in> set els \<Longrightarrow> el_text pt = Some t \<Longrightarrow> py_in (u ''review'') (py_lower t)
     \<Longrightarrow> has_review_text els"
  by (auto simp: has_review_text_def list_ex_iff intro!: bexI [of _ pt])

section \<open>The parser on the sample entries\<close>

lemmas record_defs =
  leaf_def branch_def sample_entry_def sample_record_def el_findall_def el_find_def
  find_path_def escape_cdata_def escape_attrib_def text_val_def dict_set_def dict_get_def
  py_str_def and_then_def author_name_parse_map_def get_authors_def element_text_def
  get_date_def get_texts_def has_review_text_def is_review_def filtering_phrases_def
  is_review_in_text_def source_name_def get_year_def combined_text_def add_title_def
  add_authors_def add_dates_def article_record_def get_abstract_data_from_xml_el_def
  parse_file_def py_in_def py_lower_def lower_cp_def repr_str_def repr_char_def
  py_isprintable_def strptime_def month_alts_def day_alts_def days_in_month_def digit_val_def
  sublist_code prefix_code

lemma sample_plain:
  "get_abstract_data_from_xml_el
     (sample_entry [leaf ''Year'' ''2019'', leaf ''MedlineDate'' ''2018 Jan''] [] [])
   = Inr (Some (sample_record (VStr (u ''2019'')) VNone))"
  by (simp add: record_defs clean_text_defs char_class_defs)

lemma sample_medline_date:
  "get_abstract_data_from_xml_el (sample_entry [leaf ''MedlineDate'' ''2018 Jan''] [] [])
   = Inr (Some (sample_record (VStr (u ''2018'')) VNone))"
  by (simp add: record_defs clean_text_defs char_class_defs)

lemma sample_completed:
  "get_abstract_data_from_xml_el
     (sample_entry [leaf ''Year'' ''2019'']  []
        [branch ''DateCompleted'' [leaf ''Year'' ''2020'', leaf ''Month'' ''01'', leaf ''Day'' ''15'']])
   = Inr (Some (sample_record (VStr (u ''2019'')) (VDate 2020 1 15)))"
  by (simp add: record_defs clean_text_defs char_class_defs)

lemma sample_no_date:
  "get_abstract_data_from_xml_el (sample_entry [] [] []) = Inl AttributeError"
  by (simp add: record_defs clean_text_defs char_class_defs)

lemma sample_review:
  "get_abstract_data_from_xml_el
     (sample_entry [leaf ''Year'' ''2019'']
        [branch ''PublicationTypeList'' [leaf ''PublicationType'' ''Review'']] []) = Inr None"
  by (simp add: record_defs clean_text_defs char_class_defs)

lemma sample_systematic:
  "get_abstract_data_from_xml_el
     (sample_entry [leaf ''Year'' ''2019'']
        [branch ''Abstract'' [leaf ''AbstractText'' ''A systematic review of x'']] []) = Inr None"
  by (simp add: record_defs clean_text_defs char_class_defs)


lemma sample_doc_completed:
  "parse_file (branch ''PubmedArticleSet''
      [sample_entry [leaf ''Year'' ''2019''] []
        [branch ''DateCompleted'' [leaf ''Year'' ''2020'', leaf ''Month'' ''01'', leaf ''Day'' ''15'']]])
   = ([sample_record (VStr (u ''2019'')) (VDate 2020 1 15)], None)"
  by (simp add: record_defs clean_text_defs char_class_defs)

section \<open>Dates that are absent\<close>

text \<open>
  C3 (amended). The date extractor returns \<open>None\<close> without raising when the container is
  absent. When the container is present and its \<open>Year\<close>, \<open>Month\<close> or \<open>Day\<close> element is
  absent, it raises \<open>AttributeError\<close>: \<open>.text\<close> is read from the \<open>None\<close> that \<open>find\<close> returns.
\<close>

theorem get_date_absent:
  "(el_find key el = None \<longrightarrow> get_date el key = Inr VNone)
   \<and> (el_find key el = Some d
        \<and> (el_find (u ''Year'') d = None \<or> el_find (u ''Month'') d = None
             \<or> el_find (u ''Day'') d = None)
      \<longrightarrow> get_date el key = Inl AttributeError)"
  by (auto simp: get_date_def element_text_def and_then_def split: option.splits)

theorem get_date_absent_witness:
  "get_date (branch ''MedlineCitation'' [leaf ''PMID'' ''1'']) (u ''DateCompleted'') = Inr VNone
   \<and> get_date (branch ''MedlineCitation''
                 [branch ''DateRevised'' [leaf ''Year'' ''2020'', leaf ''Month'' ''01'']])
        (u ''DateRevised'') = Inl AttributeError"
proof -
  have a: "el_find (u ''DateCompleted'') (branch ''MedlineCitation'' [leaf ''PMID'' ''1'']) = None"
    by (simp add: record_defs u_def char_class_defs)
  have b: "el_find (u ''DateRevised'') (branch ''MedlineCitation''
                 [branch ''DateRevised'' [leaf ''Year'' ''2020'', leaf ''Month'' ''01'']])
             = Some (branch ''DateRevised'' [leaf ''Year'' ''2020'', leaf ''Month'' ''01''])
           \<and> (el_find (u ''Year'') (branch ''DateRevised'' [leaf ''Year'' ''2020'', leaf ''Month'' ''01'']) = None
              \<or> el_find (u ''Month'') (branch ''DateRevised'' [leaf ''Year'' ''2020'', leaf ''Month'' ''01'']) = None
              \<or> el_find (u ''Day'') (branch ''DateRevised'' [leaf ''Year'' ''2020'', leaf ''Month'' ''01'']) = None)"
    by (simp add: record_defs u_def char_class_defs)
  show ?thesis
    using get_date_absent [of "u ''DateCompleted''" "branch ''MedlineCitation'' [leaf ''PMID'' ''1'']"]
      get_date_absent [of "u ''DateRevised''" "branch ''MedlineCitation''
                 [branch ''DateRevised'' [leaf ''Year'' ''2020'', leaf ''Month'' ''01'']]"
         "branch ''DateRevised'' [leaf ''Year'' ''2020'', leaf ''Month'' ''01'']"]
      a b
    by blast
qed

text \<open>
  C3 as stated fails: a \<open>DateCompleted\<close> container without \<open>Month\<close> makes the extractor
  raise instead of returning \<open>None\<close>.
\<close>

theorem get_date_missing_month:
  "get_date (branch ''MedlineCitation''
               [branch ''DateCompleted'' [leaf ''Year'' ''2020'', leaf ''Day'' ''15'']])
     (u ''DateCompleted'') = Inl AttributeError"
  by (simp add: record_defs u_def char_class_defs)

section \<open>Entries that are reviews by their publication type\<close>

text \<open>
  C6. An entry whose publication-type list holds a type whose text contains \<open>review\<close>, in
  any case, is discarded: the extractor returns nothing for it, and the document yields
  exactly what it yields without that entry, whatever the title and the abstract are.
\<close>

theorem review_publication_type:
  assumes "el_find (u ''MedlineCitation'') el = Some m"
    and "el_find (u ''Article'') m = Some a"
    and "el_find (u ''PublicationTypeList'') a = Some l"
    and "pt \<in> set (el_findall (u ''PublicationType'') l)"
    and "el_text pt = Some t"
    and "py_in (u ''review'') (py_lower t)"
  shows "get_abstract_data_from_xml_el el = Inr None
       \<and> parse_file (Element n as tx (pre @ el # post) tail_text)
           = parse_file (Element n as tx (pre @ post) tail_text)"
proof -
  have "has_review_text (el_findall (u ''PublicationType'') l)"
    using assms(4-6) by (rule has_review_textI)
  then have "is_review m = Inr True" using assms(2,3) by (simp add: is_review_def)
  then have none: "get_abstract_data_from_xml_el el = Inr None"
    using assms(1) by (simp add: get_abstract_data_from_xml_el_def Let_def split: option.splits)
  have "parse_file (Element n as tx (pre @ el # post) tail_text)
           = parse_file (Element n as tx (pre @ post) tail_text)"
    unfolding parse_file_def el_findall_append
    by (cases "tag el = u ''PubmedArticle''") (simp_all add: parse_articles_skip [OF none])
  then show ?thesis using none by simp
qed

theorem review_publication_type_witness:
  "get_abstract_data_from_xml_el
     (sample_entry [leaf ''Year'' ''2019'']
        [branch ''PublicationTypeList'' [leaf ''PublicationType'' ''Review'']] []) = Inr None
   \<and> parse_file (Element (u ''PubmedArticleSet'') [] None
        ([] @ sample_entry [leaf ''Year'' ''2019'']
                [branch ''PublicationTypeList'' [leaf ''PublicationType'' ''Review'']] []
            # [sample_entry [leaf ''Year'' ''2019''] [] []]) None)
     = parse_file (Element (u ''PubmedArticleSet'') [] None
         ([] @ [sample_entry [leaf ''Year'' ''2019''] [] []]) None)"
proof -
  define a where "a = branch ''Article''
              ([branch ''Journal''
                  [branch ''JournalIssue'' [branch ''PubDate'' [leaf ''Year'' ''2019'']], leaf ''Title'' ''J''],
                leaf ''ArticleTitle'' ''T''] @ [branch ''PublicationTypeList'' [leaf ''PublicationType'' ''Review'']])"
  define m where "m = branch ''MedlineCitation'' ([leaf ''PMID'' ''1''] @ [] @ [a])"
  have h1: "el_find (u ''MedlineCitation'') (sample_entry [leaf ''Year'' ''2019'']
        [branch ''PublicationTypeList'' [leaf ''PublicationType'' ''Review'']] []) = Some m"
    by (simp add: record_defs u_def m_def a_def)
  have h2: "el_find (u ''Article'') m = Some a" by (simp add: record_defs u_def m_def a_def)
  have h3: "el_find (u ''PublicationTypeList'') a
              = Some (branch ''PublicationTypeList'' [leaf ''PublicationType'' ''Review''])"
    by (simp add: record_defs u_def a_def)
  have h4: "leaf ''PublicationType'' ''Review''
              \<in> set (el_findall (u ''PublicationType'')
                       (branch ''PublicationTypeList'' [leaf ''PublicationType'' ''Review'']))"
    by (simp add: record_defs u_def char_class_defs)
  have h5: "el_text (leaf ''PublicationType'' ''Review'') = Some (u ''Review'')"
    by (simp add: leaf_def)
  have h6: "py_in (u ''review'') (py_lower (u ''Review''))"
    by (simp add: record_defs u_def)
  show ?thesis by (rule review_publication_type [OF h1 h2 h3 h4 h5 h6])
qed

section \<open>The year of a record\<close>



section \<open>The keys of a record\<close>

text \<open>
  C10. Every record that \<open>parse_file\<close> yields has the keys \<open>date_completed\<close>,
  \<open>date_revised\<close> and \<open>date_article\<close>, each with the value \<open>None\<close> exactly when the entry
  has no such date container. The keys \<open>title\<close>, \<open>abstract_texts\<close>, \<open>authors\<close> and
  \<open>collective_name\<close> are in the record only when the cleaned title is not empty, when
  there is a segment that is not empty, when there is an author with a name field, and
  when a collective name was read.
\<close>

theorem record_keys:
  assumes "r \<in> set (fst (parse_file doc))"
  shows "\<exists>el m a. el \<in> set (children doc) \<and> tag el = u ''PubmedArticle''
        \<and> get_abstract_data_from_xml_el el = Inr (Some r)
        \<and> el_find (u ''MedlineCitation'') el = Some m \<and> el_find (u ''Article'') m = Some a
        \<and> (\<exists>v. dict_get r ''date_completed'' = Some v
                \<and> (v = VNone \<longleftrightarrow> el_find (u ''DateCompleted'') m = None))
        \<and> (\<exists>v. dict_get r ''date_revised'' = Some v
                \<and> (v = VNone \<longleftrightarrow> el_find (u ''DateRevised'') m = None))
        \<and> (\<exists>v. dict_get r ''date_article'' = Some v
                \<and> (v = VNone \<longleftrightarrow> el_find (u ''ArticleDate'') a = None))
        \<and> dict_get r ''title''
            = (case el_find (u ''ArticleTitle'') a of
                 None \<Rightarrow> None
               | Some t \<Rightarrow> if clean_text (tostring t) = [] then None
                           else Some (VStr (clean_text (tostring t))))
        \<and> dict_get r ''abstract_texts''
            = (if get_texts a = [] then None else Some (VList (get_texts a)))
        \<and> dict_get r ''authors''
            = (if fst (get_authors a) = [] then None else Some (VList (fst (get_authors a))))
        \<and> dict_get r ''collective_name'' = map_option VStr (snd (get_authors a))"
proof -
  from parse_file_records [OF assms] obtain el where el: "el \<in> set (children doc)"
    "tag el = u ''PubmedArticle''" "get_abstract_data_from_xml_el el = Inr (Some r)" by blast
  from emitted_record [OF el(3)] obtain m p a year jt dc dr da where
    m: "el_find (u ''MedlineCitation'') el = Some m" and a: "el_find (u ''Article'') m = Some a"
    and dc: "get_date m (u ''DateCompleted'') = Inr dc"
    and dr: "get_date m (u ''DateRevised'') = Inr dr"
    and da: "get_date a (u ''ArticleDate'') = Inr da"
    and r: "r = dict_set ''date_article'' da (dict_set ''date_revised'' dr
              (dict_set ''date_completed'' dc (add_authors a (gated_record p a year jt))))"
    by blast
  have k1: "dict_get r ''date_completed'' = Some dc" "dict_get r ''date_revised'' = Some dr"
    "dict_get r ''date_article'' = Some da"
    unfolding r by simp_all
  have k2: "dict_get r ''title''
            = (case el_find (u ''ArticleTitle'') a of
                 None \<Rightarrow> None
               | Some t \<Rightarrow> if clean_text (tostring t) = [] then None
                           else Some (VStr (clean_text (tostring t))))"
    unfolding r gated_record_def
    by (simp add: dict_get_add_authors dict_get_add_title split: option.splits)
  have k3: "dict_get r ''abstract_texts''
            = (if get_texts a = [] then None else Some (VList (get_texts a)))"
    unfolding r gated_record_def
    by (simp add: dict_get_add_authors dict_get_add_title split: option.splits)
  have k4: "dict_get r ''authors''
            = (if fst (get_authors a) = [] then None else Some (VList (fst (get_authors a))))"
    unfolding r gated_record_def
    by (simp add: dict_get_add_authors dict_get_add_title split: option.splits)
  have k5: "dict_get r ''collective_name'' = map_option VStr (snd (get_authors a))"
    unfolding r gated_record_def
    by (cases "snd (get_authors a)")
       (simp_all add: dict_get_add_authors dict_get_add_title split: option.splits)
  have d1: "\<exists>v. dict_get r ''date_completed'' = Some v
                \<and> (v = VNone \<longleftrightarrow> el_find (u ''DateCompleted'') m = None)"
    using k1(1) get_date_None [OF dc] by simp
  have d2: "\<exists>v. dict_get r ''date_revised'' = Some v
                \<and> (v = VNone \<longleftrightarrow> el_find (u ''DateRevised'') m = None)"
    using k1(2) get_date_None [OF dr] by simp
  have d3: "\<exists>v. dict_get r ''date_article'' = Some v
                \<and> (v = VNone \<longleftrightarrow> el_find (u ''ArticleDate'') a = None)"
    using k1(3) get_date_None [OF da] by simp
  show ?thesis
    apply (rule exI [of _ el], rule exI [of _ m], rule exI [of _ a])
    using el m a d1 d2 d3 k2 k3 k4 k5 by simp
qed

theorem record_keys_witness:
  "\<exists>el m a. el \<in> set (children (branch ''PubmedArticleSet''
      [sample_entry [leaf ''Year'' ''2019''] []
        [branch ''DateCompleted'' [leaf ''Year'' ''2020'', leaf ''Month'' ''01'', leaf ''Day'' ''15'']]]))
        \<and> tag el = u ''PubmedArticle''
        \<and> get_abstract_data_from_xml_el el
            = Inr (Some (sample_record (VStr (u ''2019'')) (VDate 2020 1 15)))
        \<and> el_find (u ''MedlineCitation'') el = Some m \<and> el_find (u ''Article'') m = Some a
        \<and> (\<exists>v. dict_get (sample_record (VStr (u ''2019'')) (VDate 2020 1 15)) ''date_completed'' = Some v
                \<and> (v = VNone \<longleftrightarrow> el_find (u ''DateCompleted'') m = None))
        \<and> (\<exists>v. dict_get (sample_record (VStr (u ''2019'')) (VDate 2020 1 15)) ''date_revised'' = Some v
                \<and> (v = VNone \<longleftrightarrow> el_find (u ''DateRevised'') m = None))
        \<and> (\<exists>v. dict_get (sample_record (VStr (u ''2019'')) (VDate 2020 1 15)) ''date_article'' = Some v
                \<and> (v = VNone \<longleftrightarrow> el_find (u ''ArticleDate'') a = None))
        \<and> dict_get (sample_record (VStr (u ''2019'')) (VDate 2020 1 15)) ''title''
            = (case el_find (u ''ArticleTitle'') a of
                 None \<Rightarrow> None
               | Some t \<Rightarrow> if clean_text (tostring t) = [] then None
                           else Some (VStr (clean_text (tostring t))))
        \<and> dict_get (sample_record (VStr (u ''2019'')) (VDate 2020 1 15)) ''abstract_texts''
            = (if get_texts a = [] then None else Some (VList (get_texts a)))
        \<and> dict_get (sample_record (VStr (u ''2019'')) (VDate 2020 1 15)) ''authors''
            = (if fst (get_authors a) = [] then None else Some (VList (fst (get_authors a))))
        \<and> dict_get (sample_record (VStr (u ''2019'')) (VDate 2020 1 15)) ''collective_name''
            = map_option VStr (snd (get_authors a))"
proof -
  have h: "sample_record (VStr (u ''2019'')) (VDate 2020 1 15)
             \<in> set (fst (parse_file (branch ''PubmedArticleSet''
      [sample_entry [leaf ''Year'' ''2019''] []
        [branch ''DateCompleted'' [leaf ''Year'' ''2020'', leaf ''Month'' ''01'', leaf ''Day'' ''15'']]])))"
    by (simp add: sample_doc_completed)
  show ?thesis by (rule record_keys [OF h])
qed

section \<open>The invariant of the records\<close>



section \<open>The review phrase in an abstract\<close>

lemma concat_map_transfer:
  fixes f h :: "'a \<Rightarrow> 'b list"
  assumes ok: "\<And>c. h c = f c \<or> (f c \<noteq> [] \<and> set (f c) \<inter> set P = {})"
  shows "(\<forall>Q. set Q \<subseteq> set P \<longrightarrow> prefix Q (concat (map f s)) \<longrightarrow> prefix Q (concat (map h s)))
       \<and> (\<forall>Q. set Q \<subseteq> set P \<longrightarrow> sublist Q (concat (map f s)) \<longrightarrow> sublist Q (concat (map h s)))"
proof (induction s)
  case Nil
  then show ?case by simp
next
  case (Cons c s)
  let ?F = "concat (map f s)" and ?H = "concat (map h s)"
  have IHp: "\<And>Q. set Q \<subseteq> set P \<Longrightarrow> prefix Q ?F \<Longrightarrow> prefix Q ?H"
    and IHs: "\<And>Q. set Q \<subseteq> set P \<Longrightarrow> sublist Q ?F \<Longrightarrow> sublist Q ?H"
    using Cons.IH by blast+
  have inside: "Q = []" if "set Q \<subseteq> set P" "set Q \<subseteq> set (f c)" "h c \<noteq> f c" for Q
  proof (rule ccontr)
    assume "Q \<noteq> []"
    then obtain q where "q \<in> set Q" by (cases Q) auto
    then have "q \<in> set (f c) \<inter> set P" using that by auto
    then show False using ok [of c] that(3) by auto
  qed
  have p: "prefix Q (h c @ ?H)" if Q: "set Q \<subseteq> set P" and pre: "prefix Q (f c @ ?F)" for Q
  proof (cases "h c = f c")
    case True
    from pre consider "prefix Q (f c)" | us where "Q = f c @ us" "prefix us ?F"
      unfolding prefix_append by blast
    then show ?thesis
    proof cases
      case 1
      then show ?thesis using True by (simp add: prefix_append)
    next
      case 2
      then have "prefix us ?H" using IHp [of us] Q by auto
      then show ?thesis using 2 True by simp
    qed
  next
    case False
    then have ne: "f c \<noteq> []" using ok [of c] by auto
    have "Q = []"
    proof (rule ccontr)
      assume "Q \<noteq> []"
      then obtain q Q' where q: "Q = q # Q'" by (cases Q) auto
      obtain x xs where x: "f c = x # xs" using ne by (cases "f c") auto
      have "q = x" using pre unfolding q x by simp
      then have "q \<in> set (f c) \<inter> set P" using Q q x by auto
      then show False using ok [of c] False by auto
    qed
    then show ?thesis by simp
  qed
  have s: "sublist Q (h c @ ?H)" if Q: "set Q \<subseteq> set P" and sub: "sublist Q (f c @ ?F)" for Q
  proof -
    from sub consider "sublist Q (f c)" | "sublist Q ?F"
      | Q1 Q2 where "Q = Q1 @ Q2" "suffix Q1 (f c)" "prefix Q2 ?F"
      unfolding sublist_append by blast
    then show ?thesis
    proof cases
      case 1
      show ?thesis
      proof (cases "h c = f c")
        case True
        then show ?thesis using 1 by (auto simp: sublist_append)
      next
        case False
        have "Q = []" using inside [OF Q _ False] 1 set_mono_sublist by blast
        then show ?thesis by simp
      qed
    next
      case 2
      then have "sublist Q ?H" using IHs Q by blast
      then show ?thesis by (auto simp: sublist_append)
    next
      case 3
      have Q2: "prefix Q2 ?H" using IHp [of Q2] Q 3 by auto
      show ?thesis
      proof (cases "h c = f c")
        case True
        then show ?thesis using 3 Q2 unfolding sublist_append by metis
      next
        case False
        have "set Q1 \<subseteq> set (f c)" using 3(2) set_mono_suffix by blast
        then have "Q1 = []" using inside [of Q1] Q 3(1) False by auto
        then have "prefix Q ?H" using 3(1) Q2 by simp
        then have "sublist Q ?H" by (rule prefix_imp_sublist)
        then show ?thesis by (auto simp: sublist_append)
      qed
    qed
  qed
  show ?case using p s by simp
qed

lemma py_lower_append [simp]: "py_lower (a @ b) = py_lower a @ py_lower b"
  by (simp add: py_lower_def)

lemma sublist_py_lower: "sublist a b \<Longrightarrow> sublist (py_lower a) (py_lower b)"
  unfolding sublist_def by (metis py_lower_append)

lemma phrase_chars:
  "c \<in> set (u ''systematic review'') \<Longrightarrow> c = 32 \<or> (97 \<le> c \<and> c \<le> 122)"
  by (auto simp: u_def)

lemma lower_repr_char:
  assumes "q = 34 \<or> q = 39"
  shows "py_lower (repr_char q c) = lower_cp c
       \<or> (lower_cp c = [c] \<and> \<not> (c = 32 \<or> (97 \<le> c \<and> c \<le> 122)))"
proof (cases "repr_char q c = [c]")
  case True
  then show ?thesis by (simp add: py_lower_def)
next
  case False
  then have np: "c = q \<or> c = 92 \<or> c = 9 \<or> c = 10 \<or> c = 13 \<or> \<not> py_isprintable c"
    by (auto simp: repr_char_def split: if_splits)
  then have "\<not> (65 \<le> c \<and> c \<le> 90)" "c \<noteq> 304" "c \<noteq> 8490" "\<not> (c = 32 \<or> (97 \<le> c \<and> c \<le> 122))"
    using assms by (auto simp: py_isprintable_def is_space_def split: if_splits)
  then show ?thesis by (auto simp: lower_cp_def)
qed

lemma phrase_through_repr:
  assumes "py_in (u ''systematic review'') (py_lower t)"
  shows "py_in (u ''systematic review'') (py_lower (repr_str t))"
proof -
  define q :: nat where "q = (if 39 \<in> set t \<and> 34 \<notin> set t then 34 else 39)"
  have q: "q = 34 \<or> q = 39" by (simp add: q_def)
  have ok: "(\<lambda>c. py_lower (repr_char q c)) c = lower_cp c
            \<or> (lower_cp c \<noteq> [] \<and> set (lower_cp c) \<inter> set (u ''systematic review'') = {})" for c
    using lower_repr_char [OF q, of c] phrase_chars [of c] by auto
  have a: "sublist (u ''systematic review'') (concat (map lower_cp t))"
    using assms by (simp add: py_in_def py_lower_def)
  have b: "sublist (u ''systematic review'') (concat (map (\<lambda>c. py_lower (repr_char q c)) t))"
    using concat_map_transfer [of "\<lambda>c. py_lower (repr_char q c)" lower_cp "u ''systematic review''" t, OF ok]
      a by blast
  have c: "concat (map (\<lambda>c. py_lower (repr_char q c)) t) = py_lower (concat (map (repr_char q) t))"
    by (induction t) (simp_all add: py_lower_def)
  have "sublist (concat (map (repr_char q) t)) (repr_str t)"
    unfolding repr_str_def Let_def q_def [symmetric]
    by (metis append_Cons append_Nil sublist_appendI)
  then have d: "sublist (py_lower (concat (map (repr_char q) t))) (py_lower (repr_str t))"
    by (rule sublist_py_lower)
  have "sublist (u ''systematic review'') (py_lower (repr_str t))"
    using b d unfolding c by (rule sublist_order.order.trans)
  then show ?thesis by (simp add: py_in_def)
qed

lemma sublist_join: "x \<in> set xs \<Longrightarrow> sublist x (join sep xs)"
proof (induction sep xs rule: join.induct)
  case (1 sep)
  then show ?case by simp
next
  case (2 sep y)
  then show ?case by simp
next
  case (3 sep a b xs)
  show ?case
  proof (cases "x = a")
    case True
    then show ?thesis by simp
  next
    case False
    then have "sublist x (join sep (b # xs))" using 3 by simp
    then have "sublist x ((a @ sep) @ join sep (b # xs))"
      unfolding sublist_append [of x "a @ sep"] by blast
    then show ?thesis by simp
  qed
qed

lemma sublist_in_repr_list:
  assumes "VDict ((''text'', VStr t) # rest) \<in> set texts"
  shows "sublist (repr_str t) (py_repr (VList texts))"
proof -
  let ?item = "repr_str (u ''text'') @ u '': '' @ repr_str t"
  let ?items = "join (u '', '') (map (\<lambda>(k, v). repr_str (u k) @ u '': '' @ py_repr v)
             ((''text'', VStr t) # rest))"
  let ?dicts = "join (u '', '') (map py_repr texts)"
  have a: "sublist (repr_str t) ?item"
    using sublist_append_leftI [of "repr_str t" "repr_str (u ''text'') @ u '': ''"] by simp
  have b: "sublist ?item ?items"
    by (rule sublist_join) simp
  have c: "sublist ?items (py_repr (VDict ((''text'', VStr t) # rest)))"
    unfolding py_repr.simps by (rule sublist_appendI)
  have d: "sublist (py_repr (VDict ((''text'', VStr t) # rest))) ?dicts"
    by (rule sublist_join) (use assms in \<open>auto simp del: py_repr.simps\<close>)
  have e: "sublist ?dicts (py_repr (VList texts))"
    unfolding py_repr.simps by (rule sublist_appendI)
  note t = sublist_order.order.trans
  show ?thesis by (rule t [OF a t [OF b t [OF c t [OF d e]]]])
qed

lemma texts_loop_segment:
  assumes "seg \<in> set els" "clean_text (tostring seg) \<noteq> []"
  shows "\<exists>rest. VDict ((''text'', VStr (clean_text (tostring seg))) # rest) \<in> set (texts_loop els)"
  using assms by (induction els) (auto simp: Let_def)

lemma py_strip_keeps:
  assumes "R \<noteq> []" "\<not> is_space (hd R)" "\<not> is_space (last R)"
  shows "sublist R (py_strip (A @ R))"
proof -
  have dR: "dropWhile is_space R = R" using assms(1,2) by (cases R) auto
  obtain B where B: "dropWhile is_space (A @ R) = B @ R"
  proof (cases "\<forall>x\<in>set A. is_space x")
    case True
    then have "dropWhile is_space (A @ R) = [] @ R" by (simp add: dropWhile_append dR)
    then show ?thesis by (rule that)
  next
    case False
    then have "dropWhile is_space (A @ R) = dropWhile is_space A @ R"
      by (auto simp: dropWhile_append)
    then show ?thesis by (rule that)
  qed
  have "dropWhile is_space (rev R @ rev B) = rev R @ rev B"
    using assms(1,3) by (cases "rev R") (auto simp: hd_rev [symmetric] last_rev)
  then have "py_strip (A @ R) = B @ R" by (simp add: py_strip_def B)
  then show ?thesis by simp
qed

lemma repr_list_ends:
  "py_repr (VList texts) \<noteq> []" "\<not> is_space (hd (py_repr (VList texts)))"
  "\<not> is_space (last (py_repr (VList texts)))"
  by (simp_all add: u_def is_space_def)

lemma phrase_in_combined_text:
  assumes "dict_get d ''abstract_texts'' = Some (VList texts)"
    and "VDict ((''text'', VStr t) # rest) \<in> set texts"
    and "py_in (u ''systematic review'') (py_lower t)"
  shows "is_review_in_text (combined_text d)"
proof -
  have a: "sublist (u ''systematic review'') (py_lower (repr_str t))"
    using phrase_through_repr [OF assms(3)] by (simp add: py_in_def)
  have b: "sublist (py_lower (repr_str t)) (py_lower (py_repr (VList texts)))"
    by (rule sublist_py_lower) (rule sublist_in_repr_list [OF assms(2)])
  have "py_str (VList texts) = py_repr (VList texts)" by (simp add: py_str_def)
  then have A: "combined_text d
      = py_strip (((case dict_get d ''title'' of None \<Rightarrow> [] | Some v \<Rightarrow> py_str v) @ [10])
                  @ py_repr (VList texts))"
    by (simp add: combined_text_def assms(1))
  have "sublist (py_repr (VList texts)) (combined_text d)"
    unfolding A by (rule py_strip_keeps [OF repr_list_ends])
  then have c: "sublist (py_lower (py_repr (VList texts))) (py_lower (combined_text d))"
    by (rule sublist_py_lower)
  note t = sublist_order.order.trans
  have "sublist (u ''systematic review'') (py_lower (combined_text d))"
    by (rule t [OF a t [OF b c]])
  then show ?thesis
    by (simp add: is_review_in_text_def filtering_phrases_def py_in_def)
qed

text \<open>
  C7. An entry with an abstract segment whose cleaned text contains \<open>systematic review\<close>,
  in any case, yields no record, whether or not any structural review signal is present:
  the extractor returns nothing or raises, so the records of the document are those it
  yields without the entry, or those of the entries before it when the entry raises. The
  phrase survives the \<open>repr\<close> of the segment list that the parser searches.
\<close>

theorem review_phrase_in_abstract:
  assumes "el_find (u ''MedlineCitation'') el = Some m"
    and "el_find (u ''Article'') m = Some a"
    and "el_find (u ''Abstract'') a = Some ab"
    and "seg \<in> set (el_findall (u ''AbstractText'') ab)"
    and "py_in (u ''systematic review'') (py_lower (clean_text (tostring seg)))"
  shows "(\<forall>r. get_abstract_data_from_xml_el el \<noteq> Inr (Some r))
       \<and> (fst (parse_file (Element n as tx (pre @ el # post) tail_text))
            = fst (parse_file (Element n as tx (pre @ post) tail_text))
          \<or> fst (parse_file (Element n as tx (pre @ el # post) tail_text))
            = fst (parse_file (Element n as tx pre tail_text)))"
proof -
  have ne: "clean_text (tostring seg) \<noteq> []"
  proof
    assume "clean_text (tostring seg) = []"
    then have "sublist (u ''systematic review'') []"
      using assms(5) by (simp add: py_in_def py_lower_def)
    then show False by (simp add: u_def)
  qed
  have gt: "get_texts a = texts_loop (el_findall (u ''AbstractText'') ab)"
    using assms(3) by (simp add: get_texts_def)
  from texts_loop_segment [OF assms(4) ne] obtain rest where
    seg: "VDict ((''text'', VStr (clean_text (tostring seg))) # rest) \<in> set (get_texts a)"
    unfolding gt by blast
  then have texts: "get_texts a \<noteq> []" by auto
  have none: "get_abstract_data_from_xml_el el \<noteq> Inr (Some r)" for r
  proof
    assume "get_abstract_data_from_xml_el el = Inr (Some r)"
    from emitted_record [OF this] obtain m' p a' year jt where
      "el_find (u ''MedlineCitation'') el = Some m'" "el_find (u ''Article'') m' = Some a'"
      and no: "\<not> is_review_in_text (combined_text (gated_record p a' year jt))"
      by blast
    then have "m' = m" "a' = a" using assms(1,2) by auto
    have "dict_get (gated_record p a year jt) ''abstract_texts'' = Some (VList (get_texts a))"
      unfolding gated_record_def using texts
      by (simp add: dict_get_add_title split: option.splits)
    from phrase_in_combined_text [OF this seg assms(5)] no \<open>a' = a\<close> show False by simp
  qed
  have "fst (parse_file (Element n as tx (pre @ el # post) tail_text))
            = fst (parse_file (Element n as tx (pre @ post) tail_text))
          \<or> fst (parse_file (Element n as tx (pre @ el # post) tail_text))
            = fst (parse_file (Element n as tx pre tail_text))"
  proof (cases "tag el = u ''PubmedArticle''")
    case True
    show ?thesis
      unfolding parse_file_def el_findall_append
      using parse_articles_no_record [of el "filter (\<lambda>c. tag c = u ''PubmedArticle'') pre"
          "filter (\<lambda>c. tag c = u ''PubmedArticle'') post"] none True
      by simp
  next
    case False
    then show ?thesis unfolding parse_file_def el_findall_append by simp
  qed
  then show ?thesis using none by blast
qed

theorem review_phrase_in_abstract_witness:
  "(\<forall>r. get_abstract_data_from_xml_el
          (sample_entry [leaf ''Year'' ''2019'']
             [branch ''Abstract'' [leaf ''AbstractText'' ''A systematic review of x'']] [])
        \<noteq> Inr (Some r))
   \<and> (fst (parse_file (Element (u ''PubmedArticleSet'') [] None
              ([sample_entry [leaf ''Year'' ''2019''] [] []]
               @ sample_entry [leaf ''Year'' ''2019'']
                   [branch ''Abstract'' [leaf ''AbstractText'' ''A systematic review of x'']] []
               # []) None))
        = fst (parse_file (Element (u ''PubmedArticleSet'') [] None
              ([sample_entry [leaf ''Year'' ''2019''] [] []] @ []) None))
      \<or> fst (parse_file (Element (u ''PubmedArticleSet'') [] None
              ([sample_entry [leaf ''Year'' ''2019''] [] []]
               @ sample_entry [leaf ''Year'' ''2019'']
                   [branch ''Abstract'' [leaf ''AbstractText'' ''A systematic review of x'']] []
               # []) None))
        = fst (parse_file (Element (u ''PubmedArticleSet'') [] None
              [sample_entry [leaf ''Year'' ''2019''] [] []] None)))"
proof -
  define ab where "ab = branch ''Abstract'' [leaf ''AbstractText'' ''A systematic review of x'']"
  define a where "a = branch ''Article''
              ([branch ''Journal''
                  [branch ''JournalIssue'' [branch ''PubDate'' [leaf ''Year'' ''2019'']], leaf ''Title'' ''J''],
                leaf ''ArticleTitle'' ''T''] @ [ab])"
  define m where "m = branch ''MedlineCitation'' ([leaf ''PMID'' ''1''] @ [] @ [a])"
  have h1: "el_find (u ''MedlineCitation'') (sample_entry [leaf ''Year'' ''2019'']
             [branch ''Abstract'' [leaf ''AbstractText'' ''A systematic review of x'']] []) = Some m"
    by (simp add: record_defs u_def m_def a_def ab_def)
  have h2: "el_find (u ''Article'') m = Some a" by (simp add: record_defs u_def m_def a_def)
  have h3: "el_find (u ''Abstract'') a = Some ab" by (simp add: record_defs u_def a_def ab_def)
  have h4: "leaf ''AbstractText'' ''A systematic review of x''
              \<in> set (el_findall (u ''AbstractText'') ab)"
    by (simp add: record_defs u_def ab_def)
  have h5: "py_in (u ''systematic review'')
              (py_lower (clean_text (tostring (leaf ''AbstractText'' ''A systematic review of x''))))"
    by (simp add: record_defs clean_text_defs char_class_defs)
  show ?thesis by (rule review_phrase_in_abstract [OF h1 h2 h3 h4 h5])
qed

end
